theory Spec2Isabelle
  imports Complex_Main "HOL-Library.AList" "HOL-Library.Sublist"
begin

section \<open>Flask user management API: the store, validation and the handlers\<close>

text \<open>
  The development follows \<^verbatim>\<open>src/app.py\<close>. The Python object \<^verbatim>\<open>user_manager\<close> is a
  record that every operation receives and returns; the two clock reads of a request
  (\<^verbatim>\<open>datetime.now()\<close> in the store and in \<^verbatim>\<open>create_response\<close>) are arguments; every
  exception the interpreter can raise inside a handler is a value of type \<open>exn\<close>.
  A request body is not JSON, or JSON that cannot be decoded, or a JSON value. Strings
  are ASCII text: \<open>lower\<close>, \<open>strip\<close> and \<open>int\<close> are modelled on ASCII characters.
\<close>

subsection \<open>JSON values as Python sees them\<close>

datatype pyfloat = Finite rat | PosInf | NegInf | NaN

datatype jvalue =
    JNull
  | JBool bool
  | JInt int
  | JFloat pyfloat
  | JStr string
  | JList "jvalue list"
  | JObj "(string \<times> jvalue) list"

type_synonym payload = "string \<rightharpoonup> jvalue"

datatype exn = TypeError | AttributeError | ValueError | OverflowError | KeyError | BadRequest

text \<open>Python truthiness, as used by \<^verbatim>\<open>not data[field]\<close> and \<^verbatim>\<open>and data['age']\<close>.\<close>

fun truthy :: "jvalue \<Rightarrow> bool" where
  "truthy JNull = False"
| "truthy (JBool b) = b"
| "truthy (JInt i) = (i \<noteq> 0)"
| "truthy (JFloat f) = (f \<noteq> Finite 0)"
| "truthy (JStr s) = (s \<noteq> [])"
| "truthy (JList xs) = (xs \<noteq> [])"
| "truthy (JObj kvs) = (kvs \<noteq> [])"

subsection \<open>String primitives\<close>

definition is_upper :: "char \<Rightarrow> bool" where
  "is_upper c = (65 \<le> (of_char c :: nat) \<and> (of_char c :: nat) \<le> 90)"

definition is_lower :: "char \<Rightarrow> bool" where
  "is_lower c = (97 \<le> (of_char c :: nat) \<and> (of_char c :: nat) \<le> 122)"

definition is_alpha :: "char \<Rightarrow> bool" where
  "is_alpha c = (is_upper c \<or> is_lower c)"

definition is_digit :: "char \<Rightarrow> bool" where
  "is_digit c = (48 \<le> (of_char c :: nat) \<and> (of_char c :: nat) \<le> 57)"

text \<open>\<^verbatim>\<open>str.isspace\<close> on ASCII: tab, newline, VT, FF, CR, the separators 28..31, space.\<close>

definition is_space :: "char \<Rightarrow> bool" where
  "is_space c = ((9 \<le> (of_char c :: nat) \<and> (of_char c :: nat) \<le> 13)
     \<or> (28 \<le> (of_char c :: nat) \<and> (of_char c :: nat) \<le> 32))"

definition lower_char :: "char \<Rightarrow> char" where
  "lower_char c = (if is_upper c then char_of ((of_char c :: nat) + 32) else c)"

definition lower :: "string \<Rightarrow> string" where
  "lower s = map lower_char s"

definition strip :: "string \<Rightarrow> string" where
  "strip s = rev (dropWhile is_space (rev (dropWhile is_space s)))"

text \<open>\<^verbatim>\<open>x.lower()\<close> and \<^verbatim>\<open>x.strip()\<close> exist on \<^verbatim>\<open>str\<close> only.\<close>

fun py_lower :: "jvalue \<Rightarrow> exn + string" where
  "py_lower (JStr s) = Inr (lower s)"
| "py_lower _ = Inl AttributeError"

fun py_strip :: "jvalue \<Rightarrow> exn + string" where
  "py_strip (JStr s) = Inr (strip s)"
| "py_strip _ = Inl AttributeError"

text \<open>Decimal rendering of an integer inside an f-string.\<close>

definition digit_char :: "nat \<Rightarrow> char" where
  "digit_char n = char_of (48 + n)"

function str_nat :: "nat \<Rightarrow> string" where
  "str_nat n = (if n < 10 then [digit_char n] else str_nat (n div 10) @ [digit_char (n mod 10)])"
  by pat_completeness auto
termination
  by (relation "measure (\<lambda>n. n)") auto

declare str_nat.simps [simp del]

definition str_int :: "int \<Rightarrow> string" where
  "str_int i = (if i < 0 then CHR ''-'' # str_nat (nat (- i)) else str_nat (nat i))"

subsection \<open>The email pattern\<close>

text \<open>
  \<^verbatim>\<open>^[a-zA-Z0-9._%+-]+@[a-zA-Z0-9.-]+\.[a-zA-Z]{2,}$\<close> under \<^verbatim>\<open>re.match\<close>.
  The local part cannot hold \<open>@\<close>, so it is the longest prefix of local characters; the
  top-level segment holds letters only, so it is the longest suffix of letters, and the
  dot before it ends the domain. \<^verbatim>\<open>$\<close> also matches before one final newline.
\<close>

definition local_char :: "char \<Rightarrow> bool" where
  "local_char c = (is_alpha c \<or> is_digit c \<or> c \<in> set ''._%+-'')"

definition domain_char :: "char \<Rightarrow> bool" where
  "domain_char c = (is_alpha c \<or> is_digit c \<or> c \<in> set ''.-'')"

definition domain_tld :: "string \<Rightarrow> bool" where
  "domain_tld r =
     (let tld = takeWhile is_alpha (rev r) in
      2 \<le> length tld \<and>
      (case dropWhile is_alpha (rev r) of
         [] \<Rightarrow> False
       | c # dm \<Rightarrow> c = CHR ''.'' \<and> dm \<noteq> [] \<and> list_all domain_char dm))"

definition email_full :: "string \<Rightarrow> bool" where
  "email_full s =
     (takeWhile local_char s \<noteq> [] \<and>
      (case dropWhile local_char s of
         [] \<Rightarrow> False
       | c # r \<Rightarrow> c = CHR ''@'' \<and> domain_tld r))"

definition email_pattern :: "string \<Rightarrow> bool" where
  "email_pattern s =
     (email_full s \<or> (s \<noteq> [] \<and> last s = CHR 0x0A \<and> email_full (butlast s)))"

fun re_match :: "jvalue \<Rightarrow> exn + bool" where
  "re_match (JStr s) = Inr (email_pattern s)"
| "re_match _ = Inl TypeError"

subsection \<open>\<^verbatim>\<open>int(x)\<close>\<close>

text \<open>
  On a string, \<^verbatim>\<open>int\<close> drops surrounding space, tab, newline, VT, FF and CR (not the
  separators 28..31 that \<^verbatim>\<open>strip\<close> drops), allows one sign, then reads decimal digits
  with single underscores between digits. A string with more than 4300 digits is
  refused (the interpreter's default limit). On a float the fraction is cut off; \<open>nan\<close>
  raises \<^verbatim>\<open>ValueError\<close> and an infinity \<^verbatim>\<open>OverflowError\<close>.
\<close>

definition is_int_space :: "char \<Rightarrow> bool" where
  "is_int_space c = ((9 \<le> (of_char c :: nat) \<and> (of_char c :: nat) \<le> 13) \<or> (of_char c :: nat) = 32)"

definition int_strip :: "string \<Rightarrow> string" where
  "int_strip s = rev (dropWhile is_int_space (rev (dropWhile is_int_space s)))"

definition max_str_digits :: nat where
  "max_str_digits = 4300"

fun parse_digits :: "bool \<Rightarrow> nat \<Rightarrow> string \<Rightarrow> nat option" where
  "parse_digits prev acc [] = (if prev then Some acc else None)"
| "parse_digits prev acc (c # cs) =
     (if is_digit c then parse_digits True (10 * acc + ((of_char c :: nat) - 48)) cs
      else if c = CHR ''_'' \<and> prev then parse_digits False acc cs
      else None)"

definition parse_nat :: "string \<Rightarrow> nat option" where
  "parse_nat s =
     (if max_str_digits < length (filter is_digit s) then None else parse_digits False 0 s)"

definition parse_int :: "string \<Rightarrow> int option" where
  "parse_int s =
     (case int_strip s of
        [] \<Rightarrow> None
      | c # r \<Rightarrow>
          if c = CHR ''-'' then map_option (\<lambda>n. - int n) (parse_nat r)
          else if c = CHR ''+'' then map_option int (parse_nat r)
          else map_option int (parse_nat (c # r)))"

definition trunc :: "rat \<Rightarrow> int" where
  "trunc r = (if 0 \<le> r then \<lfloor>r\<rfloor> else \<lceil>r\<rceil>)"

fun py_int :: "jvalue \<Rightarrow> exn + int" where
  "py_int JNull = Inl TypeError"
| "py_int (JBool b) = Inr (if b then 1 else 0)"
| "py_int (JInt i) = Inr i"
| "py_int (JFloat (Finite r)) = Inr (trunc r)"
| "py_int (JFloat NaN) = Inl ValueError"
| "py_int (JFloat _) = Inl OverflowError"
| "py_int (JStr s) = (case parse_int s of None \<Rightarrow> Inl ValueError | Some i \<Rightarrow> Inr i)"
| "py_int (JList xs) = Inl TypeError"
| "py_int (JObj kvs) = Inl TypeError"

subsection \<open>The store: \<^verbatim>\<open>class UserManager\<close>\<close>

text \<open>
  A user is a dictionary with the same seven keys from creation on (no key is ever added
  or removed), so it is a record; the four content fields hold whatever JSON value the
  payload carried. \<^verbatim>\<open>self.users\<close> is a dictionary keyed by identifier, kept as an
  association list in insertion order: assignment replaces in place or appends, \<^verbatim>\<open>pop\<close>
  removes the key.
\<close>

record user =
  id' :: int
  name :: jvalue
  email :: jvalue
  age :: jvalue
  position :: jvalue
  created_at :: string
  updated_at :: string

record UserManager =
  users :: "(int \<times> user) list"
  next_id :: int

definition seed_time :: string where
  "seed_time = ''2025-09-29 21:42:00''"

definition UserManager_init :: UserManager where
  "UserManager_init =
     \<lparr>users =
        [(1, \<lparr>id' = 1, name = JStr ''John Doe'', email = JStr ''john.doe@example.com'',
              age = JInt 30, position = JStr ''Software Developer'',
              created_at = seed_time, updated_at = seed_time\<rparr>),
         (2, \<lparr>id' = 2, name = JStr ''Jane Smith'', email = JStr ''jane.smith@example.com'',
              age = JInt 28, position = JStr ''Product Manager'',
              created_at = seed_time, updated_at = seed_time\<rparr>),
         (3, \<lparr>id' = 3, name = JStr ''Mike Johnson'', email = JStr ''mike.johnson@example.com'',
              age = JInt 35, position = JStr ''DevOps Engineer'',
              created_at = seed_time, updated_at = seed_time\<rparr>)],
      next_id = 4\<rparr>"

definition get_all_users :: "UserManager \<Rightarrow> user list" where
  "get_all_users self = map snd (users self)"

definition get_user_by_id :: "UserManager \<Rightarrow> int \<Rightarrow> user option" where
  "get_user_by_id self user_id = map_of (users self) user_id"

text \<open>\<^verbatim>\<open>user_data.get(k)\<close>: the value, or \<^verbatim>\<open>None\<close> for a missing key.\<close>

definition dict_get :: "payload \<Rightarrow> string \<Rightarrow> jvalue" where
  "dict_get user_data k = (case user_data k of None \<Rightarrow> JNull | Some v \<Rightarrow> v)"

definition create_user :: "UserManager \<Rightarrow> payload \<Rightarrow> string \<Rightarrow> user \<times> UserManager" where
  "create_user self user_data now =
     (let user_id = next_id self;
          new_user = \<lparr>id' = user_id,
                      name = dict_get user_data ''name'',
                      email = dict_get user_data ''email'',
                      age = dict_get user_data ''age'',
                      position = dict_get user_data ''position'',
                      created_at = now,
                      updated_at = now\<rparr>
      in (new_user,
          self\<lparr>users := AList.update user_id new_user (users self),
               next_id := next_id self + 1\<rparr>))"

definition update_user ::
  "UserManager \<Rightarrow> int \<Rightarrow> payload \<Rightarrow> string \<Rightarrow> user option \<times> UserManager" where
  "update_user self user_id user_data now =
     (case map_of (users self) user_id of
        None \<Rightarrow> (None, self)
      | Some u0 \<Rightarrow>
          (let u1 = (case user_data ''name'' of None \<Rightarrow> u0 | Some v \<Rightarrow> u0\<lparr>name := v\<rparr>);
               u2 = (case user_data ''email'' of None \<Rightarrow> u1 | Some v \<Rightarrow> u1\<lparr>email := v\<rparr>);
               u3 = (case user_data ''age'' of None \<Rightarrow> u2 | Some v \<Rightarrow> u2\<lparr>age := v\<rparr>);
               u4 = (case user_data ''position'' of None \<Rightarrow> u3 | Some v \<Rightarrow> u3\<lparr>position := v\<rparr>);
               u5 = u4\<lparr>updated_at := now\<rparr>
           in (Some u5, self\<lparr>users := AList.update user_id u5 (users self)\<rparr>)))"

definition delete_user :: "UserManager \<Rightarrow> int \<Rightarrow> user option \<times> UserManager" where
  "delete_user self user_id =
     (case map_of (users self) user_id of
        Some deleted_user \<Rightarrow>
          (Some deleted_user, self\<lparr>users := AList.delete user_id (users self)\<rparr>)
      | None \<Rightarrow> (None, self))"

subsection \<open>\<^verbatim>\<open>validate_user_data\<close>\<close>

text \<open>
  The list \<^verbatim>\<open>errors\<close> is threaded through the five blocks in the order of the source;
  a block that raises ends the call.
\<close>

definition required_fields :: "string list" where
  "required_fields = [''name'', ''email'', ''age'', ''position'']"

definition required_msg :: "string \<Rightarrow> string" where
  "required_msg field = ''Field '' @ [CHR 0x27] @ field @ [CHR 0x27] @ '' is required''"

fun required_loop :: "string list \<Rightarrow> payload \<Rightarrow> string list \<Rightarrow> string list" where
  "required_loop [] d errs = errs"
| "required_loop (field # rest) d errs =
     required_loop rest d
       (if (case d field of None \<Rightarrow> True | Some v \<Rightarrow> \<not> truthy v)
        then errs @ [required_msg field] else errs)"

definition check_email :: "payload \<Rightarrow> string list \<Rightarrow> exn + string list" where
  "check_email d errs =
     (case d ''email'' of
        None \<Rightarrow> Inr errs
      | Some v \<Rightarrow>
          if \<not> truthy v then Inr errs
          else (case re_match v of
                  Inl e \<Rightarrow> Inl e
                | Inr m \<Rightarrow> Inr (if \<not> m then errs @ [''Invalid email format''] else errs)))"

definition check_age :: "payload \<Rightarrow> string list \<Rightarrow> exn + string list" where
  "check_age d errs =
     (case d ''age'' of
        None \<Rightarrow> Inr errs
      | Some v \<Rightarrow>
          if \<not> truthy v then Inr errs
          else (case py_int v of
                  Inr a \<Rightarrow>
                    Inr (if a < 0 \<or> a > 150
                         then errs @ [''Age must be between 0 and 150''] else errs)
                | Inl ValueError \<Rightarrow> Inr (errs @ [''Age must be a valid number''])
                | Inl TypeError \<Rightarrow> Inr (errs @ [''Age must be a valid number''])
                | Inl e \<Rightarrow> Inl e))"

definition check_name :: "payload \<Rightarrow> string list \<Rightarrow> exn + string list" where
  "check_name d errs =
     (case d ''name'' of
        None \<Rightarrow> Inr errs
      | Some v \<Rightarrow>
          if \<not> truthy v then Inr errs
          else (case py_strip v of
                  Inl e \<Rightarrow> Inl e
                | Inr t \<Rightarrow>
                    Inr (if length t < 2
                         then errs @ [''Name must be at least 2 characters long'']
                         else errs)))"

definition check_position :: "payload \<Rightarrow> string list \<Rightarrow> exn + string list" where
  "check_position d errs =
     (case d ''position'' of
        None \<Rightarrow> Inr errs
      | Some v \<Rightarrow>
          if \<not> truthy v then Inr errs
          else (case py_strip v of
                  Inl e \<Rightarrow> Inl e
                | Inr t \<Rightarrow>
                    Inr (if length t < 2
                         then errs @ [''Position must be at least 2 characters long'']
                         else errs)))"

definition validate_user_data :: "payload \<Rightarrow> bool \<Rightarrow> exn + string list" where
  "validate_user_data d is_update =
     (case check_email d (if \<not> is_update then required_loop required_fields d [] else []) of
        Inl e \<Rightarrow> Inl e
      | Inr errs1 \<Rightarrow>
          (case check_age d errs1 of
             Inl e \<Rightarrow> Inl e
           | Inr errs2 \<Rightarrow>
               (case check_name d errs2 of
                  Inl e \<Rightarrow> Inl e
                | Inr errs3 \<Rightarrow> check_position d errs3)))"

subsection \<open>The response envelope\<close>

datatype rdata =
    DUsers "user list" nat
  | DUser "user option"
  | DDeleted user
  | DSearch "user list" nat string

text \<open>
  An entry of \<^verbatim>\<open>errors\<close> is a validation message or \<^verbatim>\<open>str(e)\<close> of a caught exception;
  the interpreter's wording of the latter is not spelled out.
\<close>

datatype error_item = Text string | StrOf exn

record response =
  timestamp :: string
  status_code :: nat
  data :: "rdata option"
  message :: "string option"
  errors :: "error_item list option"

definition create_response ::
  "string \<Rightarrow> rdata option \<Rightarrow> string option \<Rightarrow> nat \<Rightarrow> error_item list option \<Rightarrow> response" where
  "create_response ts dat msg code errs =
     \<lparr>timestamp = ts,
      status_code = code,
      data = dat,
      message = (case msg of None \<Rightarrow> None | Some m \<Rightarrow> if m \<noteq> [] then Some m else None),
      errors = (case errs of None \<Rightarrow> None | Some es \<Rightarrow> if es \<noteq> [] then Some es else None)\<rparr>"

definition not_found_msg :: "int \<Rightarrow> string" where
  "not_found_msg user_id = ''User with ID '' @ str_int user_id @ '' not found''"

subsection \<open>The route handlers\<close>

text \<open>
  A body with a JSON content type holds an object, or another JSON value, or text that
  \<^verbatim>\<open>get_json\<close> cannot decode and answers with the exception \<^verbatim>\<open>BadRequest\<close>.
\<close>

datatype non_object =
    NNull
  | NBool bool
  | NInt int
  | NFloat pyfloat
  | NStr string
  | NList "jvalue list"

datatype body = NotJson | BadJson | JsonOther non_object | Json payload

text \<open>\<^verbatim>\<open>field in data\<close> on a value that is not an object.\<close>

fun key_in :: "string \<Rightarrow> non_object \<Rightarrow> exn + bool" where
  "key_in field (NStr s) = Inr (sublist field s)"
| "key_in field (NList xs) = Inr (JStr field \<in> set xs)"
| "key_in field _ = Inl TypeError"

text \<open>
  Each of the two validation modes tests all four fields with \<^verbatim>\<open>field in data\<close> before
  anything is written, and reads \<^verbatim>\<open>data[field]\<close> as soon as a test holds. On a value
  that is not an object the test itself or that read raises \<^verbatim>\<open>TypeError\<close>; where every
  test fails, the handlers go the way they go on the empty object.
\<close>

fun payload_of :: "body \<Rightarrow> exn + payload" where
  "payload_of (Json d) = Inr d"
| "payload_of (JsonOther v) =
     (if list_all (\<lambda>field. key_in field v = Inr False) required_fields
      then Inr Map.empty else Inl TypeError)"
| "payload_of _ = Inl BadRequest"

definition get_users_route :: "UserManager \<Rightarrow> string \<Rightarrow> response" where
  "get_users_route self ts =
     (let us = get_all_users self in
      create_response ts (Some (DUsers us (length us)))
        (Some (''Retrieved '' @ str_int (int (length us)) @ '' users successfully'')) 200 None)"

definition get_user_route :: "UserManager \<Rightarrow> int \<Rightarrow> string \<Rightarrow> response" where
  "get_user_route self user_id ts =
     (case get_user_by_id self user_id of
        None \<Rightarrow> create_response ts None (Some (not_found_msg user_id)) 404 None
      | Some u \<Rightarrow>
          create_response ts (Some (DUser (Some u))) (Some ''User retrieved successfully'') 200 None)"

text \<open>The loop of the POST handler over \<^verbatim>\<open>existing_users\<close>, leaving at the first match.\<close>

fun email_exists :: "user list \<Rightarrow> payload \<Rightarrow> exn + bool" where
  "email_exists [] d = Inr False"
| "email_exists (u # us) d =
     (case py_lower (email u) of
        Inl e \<Rightarrow> Inl e
      | Inr a \<Rightarrow>
          (case d ''email'' of
             None \<Rightarrow> Inl KeyError
           | Some v \<Rightarrow>
               (case py_lower v of
                  Inl e \<Rightarrow> Inl e
                | Inr b \<Rightarrow> if a = b then Inr True else email_exists us d)))"

definition create_user_try ::
  "UserManager \<Rightarrow> payload \<Rightarrow> string \<Rightarrow> string \<Rightarrow> exn + response \<times> UserManager" where
  "create_user_try self d now ts =
     (case validate_user_data d False of
        Inl e \<Rightarrow> Inl e
      | Inr errs \<Rightarrow>
          if errs \<noteq> [] then
            Inr (create_response ts None (Some ''Validation failed'') 400 (Some (map Text errs)),
                 self)
          else
            (case email_exists (get_all_users self) d of
               Inl e \<Rightarrow> Inl e
             | Inr True \<Rightarrow>
                 Inr (create_response ts None (Some ''User with this email already exists'')
                        409 None, self)
             | Inr False \<Rightarrow>
                 (case create_user self d now of
                    (new_user, self') \<Rightarrow>
                      Inr (create_response ts (Some (DUser (Some new_user)))
                             (Some ''User created successfully'') 201 None, self'))))"

definition create_user_route ::
  "UserManager \<Rightarrow> body \<Rightarrow> string \<Rightarrow> string \<Rightarrow> response \<times> UserManager" where
  "create_user_route self bdy now ts =
     (case bdy of
        NotJson \<Rightarrow>
          (create_response ts None (Some ''Request must contain JSON data'') 400 None, self)
      | _ \<Rightarrow>
          (case (case payload_of bdy of
                   Inl e \<Rightarrow> Inl e
                 | Inr d \<Rightarrow> create_user_try self d now ts) of
             Inr res \<Rightarrow> res
           | Inl e \<Rightarrow>
               (create_response ts None (Some ''Error creating user'') 500 (Some [StrOf e]),
                self)))"

text \<open>The loop of the PUT handler: the record being updated is skipped before its email is read.\<close>

fun other_email_exists :: "user list \<Rightarrow> int \<Rightarrow> payload \<Rightarrow> exn + bool" where
  "other_email_exists [] user_id d = Inr False"
| "other_email_exists (u # us) user_id d =
     (if id' u \<noteq> user_id then
        (case py_lower (email u) of
           Inl e \<Rightarrow> Inl e
         | Inr a \<Rightarrow>
             (case d ''email'' of
                None \<Rightarrow> Inl KeyError
              | Some v \<Rightarrow>
                  (case py_lower v of
                     Inl e \<Rightarrow> Inl e
                   | Inr b \<Rightarrow> if a = b then Inr True else other_email_exists us user_id d)))
      else other_email_exists us user_id d)"

definition update_user_try ::
  "UserManager \<Rightarrow> int \<Rightarrow> payload \<Rightarrow> string \<Rightarrow> string \<Rightarrow> exn + response \<times> UserManager" where
  "update_user_try self user_id d now ts =
     (case validate_user_data d True of
        Inl e \<Rightarrow> Inl e
      | Inr errs \<Rightarrow>
          if errs \<noteq> [] then
            Inr (create_response ts None (Some ''Validation failed'') 400 (Some (map Text errs)),
                 self)
          else
            (case (if d ''email'' \<noteq> None
                   then other_email_exists (get_all_users self) user_id d else Inr False) of
               Inl e \<Rightarrow> Inl e
             | Inr True \<Rightarrow>
                 Inr (create_response ts None
                        (Some ''Another user with this email already exists'') 409 None, self)
             | Inr False \<Rightarrow>
                 (case update_user self user_id d now of
                    (updated_user, self') \<Rightarrow>
                      Inr (create_response ts (Some (DUser updated_user))
                             (Some ''User updated successfully'') 200 None, self'))))"

definition update_user_route ::
  "UserManager \<Rightarrow> int \<Rightarrow> body \<Rightarrow> string \<Rightarrow> string \<Rightarrow> response \<times> UserManager" where
  "update_user_route self user_id bdy now ts =
     (case get_user_by_id self user_id of
        None \<Rightarrow> (create_response ts None (Some (not_found_msg user_id)) 404 None, self)
      | Some _ \<Rightarrow>
          (case bdy of
             NotJson \<Rightarrow>
               (create_response ts None (Some ''Request must contain JSON data'') 400 None, self)
           | _ \<Rightarrow>
               (case (case payload_of bdy of
                        Inl e \<Rightarrow> Inl e
                      | Inr d \<Rightarrow> update_user_try self user_id d now ts) of
                  Inr res \<Rightarrow> res
                | Inl e \<Rightarrow>
                    (create_response ts None (Some ''Error updating user'') 500
                       (Some [StrOf e]), self))))"

definition delete_user_route :: "UserManager \<Rightarrow> int \<Rightarrow> string \<Rightarrow> response \<times> UserManager" where
  "delete_user_route self user_id ts =
     (case delete_user self user_id of
        (None, self') \<Rightarrow>
          (create_response ts None (Some (not_found_msg user_id)) 404 None, self')
      | (Some deleted_user, self') \<Rightarrow>
          (create_response ts (Some (DDeleted deleted_user))
             (Some ''User deleted successfully'') 200 None, self'))"

text \<open>
  \<^verbatim>\<open>search_users\<close> has no \<^verbatim>\<open>try\<close>: an exception raised by \<^verbatim>\<open>.lower()\<close> leaves the
  handler. \<^verbatim>\<open>or\<close> stops at the first field that contains the query.
\<close>

definition user_matches :: "string \<Rightarrow> user \<Rightarrow> exn + bool" where
  "user_matches query u =
     (case py_lower (name u) of
        Inl e \<Rightarrow> Inl e
      | Inr n \<Rightarrow>
          if sublist (lower query) n then Inr True
          else (case py_lower (email u) of
                  Inl e \<Rightarrow> Inl e
                | Inr m \<Rightarrow>
                    if sublist (lower query) m then Inr True
                    else (case py_lower (position u) of
                            Inl e \<Rightarrow> Inl e
                          | Inr p \<Rightarrow> Inr (sublist (lower query) p))))"

fun search_loop :: "user list \<Rightarrow> string \<Rightarrow> user list \<Rightarrow> exn + user list" where
  "search_loop [] query matching_users = Inr matching_users"
| "search_loop (u # us) query matching_users =
     (case user_matches query u of
        Inl e \<Rightarrow> Inl e
      | Inr m \<Rightarrow> search_loop us query (if m then matching_users @ [u] else matching_users))"

definition search_users :: "UserManager \<Rightarrow> string option \<Rightarrow> string \<Rightarrow> exn + response" where
  "search_users self q ts =
     (let query = strip (case q of None \<Rightarrow> [] | Some s \<Rightarrow> s) in
      if query = [] then
        Inr (create_response ts None
               (Some (''Search query parameter '' @ [CHR 0x27] @ ''q'' @ [CHR 0x27] @ '' is required''))
               400 None)
      else
        (case search_loop (get_all_users self) query [] of
           Inl e \<Rightarrow> Inl e
         | Inr matching_users \<Rightarrow>
             Inr (create_response ts
                    (Some (DSearch matching_users (length matching_users) query))
                    (Some (''Found '' @ str_int (int (length matching_users))
                           @ '' users matching '' @ [CHR 0x27] @ query @ [CHR 0x27]))
                    200 None)))"

subsection \<open>Sequences of requests and of store operations\<close>

text \<open>
  The process serves one request after the other on the one \<^verbatim>\<open>user_manager\<close>. Only the
  POST, PUT and DELETE handlers write to it. A response with status 201 carries the record
  that \<^verbatim>\<open>create_user\<close> returned, hence the identifier the store assigned.
\<close>

datatype request =
    Post body string string
  | Put int body string string
  | Delete int string

fun handle :: "UserManager \<Rightarrow> request \<Rightarrow> response \<times> UserManager" where
  "handle self (Post bdy now ts) = create_user_route self bdy now ts"
| "handle self (Put user_id bdy now ts) = update_user_route self user_id bdy now ts"
| "handle self (Delete user_id ts) = delete_user_route self user_id ts"

fun run :: "UserManager \<Rightarrow> request list \<Rightarrow> response list \<times> UserManager" where
  "run self [] = ([], self)"
| "run self (r # rs) =
     (case handle self r of
        (resp, self') \<Rightarrow> (case run self' rs of (resps, self'') \<Rightarrow> (resp # resps, self'')))"

definition created_id :: "response \<Rightarrow> int list" where
  "created_id resp =
     (case data resp of
        Some (DUser (Some u)) \<Rightarrow> if status_code resp = 201 then [id' u] else []
      | _ \<Rightarrow> [])"

definition assigned_ids :: "response list \<Rightarrow> int list" where
  "assigned_ids resps = concat (map created_id resps)"

text \<open>The same for calls of the store's own methods; each call reports the identifier it assigned.\<close>

datatype store_op =
    OpCreate payload string
  | OpUpdate int payload string
  | OpDelete int

fun apply_op :: "UserManager \<Rightarrow> store_op \<Rightarrow> int list \<times> UserManager" where
  "apply_op self (OpCreate user_data now) =
     (case create_user self user_data now of (new_user, self') \<Rightarrow> ([id' new_user], self'))"
| "apply_op self (OpUpdate user_id user_data now) =
     ([], snd (update_user self user_id user_data now))"
| "apply_op self (OpDelete user_id) = ([], snd (delete_user self user_id))"

fun run_ops :: "UserManager \<Rightarrow> store_op list \<Rightarrow> int list \<times> UserManager" where
  "run_ops self [] = ([], self)"
| "run_ops self (op # ops) =
     (case apply_op self op of
        (ids, self') \<Rightarrow> (case run_ops self' ops of (ids', self'') \<Rightarrow> (ids @ ids', self'')))"

subsection \<open>Invariants of the store\<close>

definition keys_below :: "UserManager \<Rightarrow> bool" where
  "keys_below self = (\<forall>k \<in> fst ` set (users self). k < next_id self)"

definition ids_match :: "UserManager \<Rightarrow> bool" where
  "ids_match self = (\<forall>(k, u) \<in> set (users self). id' u = k)"

text \<open>Two records under different keys hold strings as emails, different after \<^verbatim>\<open>lower()\<close>.\<close>

definition emails_unique :: "UserManager \<Rightarrow> bool" where
  "emails_unique self =
     (\<forall>(k, u) \<in> set (users self). \<forall>(k', u') \<in> set (users self).
        k \<noteq> k' \<longrightarrow>
        (\<exists>a b. py_lower (email u) = Inr a \<and> py_lower (email u') = Inr b \<and> a \<noteq> b))"

definition store_inv :: "UserManager \<Rightarrow> bool" where
  "store_inv self =
     (distinct (map fst (users self)) \<and> keys_below self \<and> ids_match self
      \<and> emails_unique self)"

text \<open>The data model's typing of a record: name, email and position are strings.\<close>

definition is_str :: "jvalue \<Rightarrow> bool" where
  "is_str v = (case v of JStr _ \<Rightarrow> True | _ \<Rightarrow> False)"

definition str_fields :: "user \<Rightarrow> bool" where
  "str_fields u = (is_str (name u) \<and> is_str (email u) \<and> is_str (position u))"

definition str_of :: "jvalue \<Rightarrow> string" where
  "str_of v = (case v of JStr s \<Rightarrow> s | _ \<Rightarrow> [])"

text \<open>Case-insensitive containment of a query in one of the three searched fields.\<close>

definition contains_ci :: "string \<Rightarrow> user \<Rightarrow> bool" where
  "contains_ci query u =
     (sublist (lower query) (lower (str_of (name u)))
      \<or> sublist (lower query) (lower (str_of (email u)))
      \<or> sublist (lower query) (lower (str_of (position u))))"

subsection \<open>Payloads of the test suite and of the specification\<close>

definition new_user :: payload where
  "new_user = [''name'' \<mapsto> JStr ''Test User'', ''email'' \<mapsto> JStr ''test@example.com'',
               ''age'' \<mapsto> JInt 25, ''position'' \<mapsto> JStr ''Tester'']"

definition invalid_user :: payload where
  "invalid_user = [''name'' \<mapsto> JStr [], ''email'' \<mapsto> JStr ''bad'',
                   ''age'' \<mapsto> JInt (- 5), ''position'' \<mapsto> JStr []]"

definition duplicate_user :: payload where
  "duplicate_user = [''name'' \<mapsto> JStr ''Duplicate User'',
                     ''email'' \<mapsto> JStr ''John.Doe@Example.COM'',
                     ''age'' \<mapsto> JInt 30, ''position'' \<mapsto> JStr ''Developer'']"

definition update_data :: payload where
  "update_data = [''name'' \<mapsto> JStr ''John Updated'', ''position'' \<mapsto> JStr ''Senior Developer'']"

definition t1 :: string where
  "t1 = ''2025-10-01 09:00:00''"

definition t2 :: string where
  "t2 = ''2025-10-01 09:00:01''"

text \<open>
  Payloads on which \<open>validate_user_data\<close> cannot raise: a present, truthy name, email or
  position is a string, and the age is not an infinite float.
\<close>

definition payload_typed :: "payload \<Rightarrow> bool" where
  "payload_typed d =
     ((\<forall>v. d ''email'' = Some v \<longrightarrow> truthy v \<longrightarrow> is_str v)
      \<and> (\<forall>v. d ''name'' = Some v \<longrightarrow> truthy v \<longrightarrow> is_str v)
      \<and> (\<forall>v. d ''position'' = Some v \<longrightarrow> truthy v \<longrightarrow> is_str v)
      \<and> d ''age'' \<noteq> Some (JFloat PosInf) \<and> d ''age'' \<noteq> Some (JFloat NegInf))"

definition zero_age_user :: payload where
  "zero_age_user = new_user(''age'' \<mapsto> JInt 0)"

definition email_only :: payload where
  "email_only = [''email'' \<mapsto> JStr ''John.Doe@Example.COM'']"

definition own_email :: payload where
  "own_email = [''email'' \<mapsto> JStr ''john.doe@example.com'']"

definition empty_name :: payload where
  "empty_name = [''name'' \<mapsto> JStr []]"

definition null_name :: payload where
  "null_name = [''name'' \<mapsto> JNull]"

text \<open>The value of \<^verbatim>\<open>request.args.get('q', '').strip()\<close>.\<close>

definition query_of :: "string option \<Rightarrow> string" where
  "query_of q = strip (case q of None \<Rightarrow> [] | Some s \<Rightarrow> s)"

subsection \<open>The rules of validation as the specification words them\<close>

text \<open>
  One list of messages per rule, each a function of the rule's own field: a required
  field that is missing or empty; an email that is present, not empty and does not
  match the pattern; an age that is present and not zero-like and is not a number, or
  is a number outside 0..150; a name or position that is present, not empty and shorter
  than two characters once trimmed.
\<close>

definition spec_required :: "payload \<Rightarrow> string list" where
  "spec_required d =
     map required_msg
       (filter (\<lambda>field. case d field of None \<Rightarrow> True | Some v \<Rightarrow> \<not> truthy v) required_fields)"

definition spec_email :: "payload \<Rightarrow> string list" where
  "spec_email d =
     (case d ''email'' of
        Some (JStr s) \<Rightarrow> if s \<noteq> [] \<and> \<not> email_pattern s then [''Invalid email format''] else []
      | _ \<Rightarrow> [])"

definition spec_age :: "payload \<Rightarrow> string list" where
  "spec_age d =
     (case d ''age'' of
        None \<Rightarrow> []
      | Some v \<Rightarrow>
          if \<not> truthy v then []
          else (case py_int v of
                  Inr a \<Rightarrow> if 0 \<le> a \<and> a \<le> 150 then [] else [''Age must be between 0 and 150'']
                | Inl e \<Rightarrow> [''Age must be a valid number'']))"

definition spec_name :: "payload \<Rightarrow> string list" where
  "spec_name d =
     (case d ''name'' of
        Some (JStr s) \<Rightarrow>
          if s \<noteq> [] \<and> length (strip s) < 2
          then [''Name must be at least 2 characters long''] else []
      | _ \<Rightarrow> [])"

definition spec_position :: "payload \<Rightarrow> string list" where
  "spec_position d =
     (case d ''position'' of
        Some (JStr s) \<Rightarrow>
          if s \<noteq> [] \<and> length (strip s) < 2
          then [''Position must be at least 2 characters long''] else []
      | _ \<Rightarrow> [])"

definition spec_errors :: "payload \<Rightarrow> bool \<Rightarrow> string list" where
  "spec_errors d is_update =
     (if is_update then [] else spec_required d)
     @ spec_email d @ spec_age d @ spec_name d @ spec_position d"

definition untyped_email_user :: payload where
  "untyped_email_user = invalid_user(''email'' \<mapsto> JInt 123)"

definition untyped_name_user :: payload where
  "untyped_name_user = zero_age_user(''name'' \<mapsto> JInt 12)"

definition string_zero_age_user :: payload where
  "string_zero_age_user = new_user(''age'' \<mapsto> JStr ''0'')"

definition short_name_user :: payload where
  "short_name_user = new_user(''name'' \<mapsto> JStr '' a '', ''position'' \<mapsto> JStr ''x'')"

section \<open>Properties\<close>

subsection \<open>Store operations on absent and deleted identifiers\<close>

lemma update_user_absent:
  "map_of (users self) user_id = None \<Longrightarrow> update_user self user_id d now = (None, self)"
  by (simp add: update_user_def)

lemma delete_user_absent:
  "map_of (users self) user_id = None \<Longrightarrow> delete_user self user_id = (None, self)"
  by (simp add: delete_user_def)


text \<open>
  Claim C7. For an identifier that is not a key of the store and any payload,
  \<open>update_user\<close> returns \<open>None\<close> and the store it returns is the store it received: the
  record mapping and the counter are as before. Absence is a return value of the
  lookup and of \<open>delete_user\<close> too, never an exception.
\<close>

theorem update_absent_no_side_effect:
  assumes "user_id \<notin> fst ` set (users self)"
  shows "update_user self user_id d now = (None, self)
    \<and> users (snd (update_user self user_id d now)) = users self
    \<and> next_id (snd (update_user self user_id d now)) = next_id self
    \<and> get_user_by_id self user_id = None
    \<and> delete_user self user_id = (None, self)"
proof -
  from assms have absent: "map_of (users self) user_id = None"
    by (simp add: map_of_eq_None_iff)
  then show ?thesis
    by (simp add: update_user_absent delete_user_absent get_user_by_id_def)
qed

theorem update_absent_no_side_effect_witness:
  "(999::int) \<notin> fst ` set (users UserManager_init)
   \<and> update_user UserManager_init 999 update_data t1 = (None, UserManager_init)
   \<and> next_id (snd (update_user UserManager_init 999 update_data t1)) = 4"
  using update_absent_no_side_effect [of 999 UserManager_init update_data t1]
  by (simp add: UserManager_init_def)



subsection \<open>The email matcher and the pattern\<close>

lemma not_local_at: "\<not> local_char CHR ''@''"
  by (simp add: local_char_def is_alpha_def is_upper_def is_lower_def is_digit_def)

lemma not_alpha_dot: "\<not> is_alpha CHR ''.''"
  by (simp add: is_alpha_def is_upper_def is_lower_def)

lemma domain_tld_iff:
  "domain_tld r \<longleftrightarrow>
     (\<exists>dm tld. r = dm @ ''.'' @ tld \<and> dm \<noteq> [] \<and> list_all domain_char dm
        \<and> 2 \<le> length tld \<and> list_all is_alpha tld)"
proof
  assume a: "domain_tld r"
  then obtain c m where dw: "dropWhile is_alpha (rev r) = c # m"
    by (auto simp: domain_tld_def Let_def split: list.splits)
  with a have c: "c = CHR ''.''" and m: "m \<noteq> []" "list_all domain_char m"
    and len: "2 \<le> length (takeWhile is_alpha (rev r))"
    by (simp_all add: domain_tld_def Let_def)
  have "rev r = takeWhile is_alpha (rev r) @ dropWhile is_alpha (rev r)" by simp
  then have "rev (rev r) = rev (takeWhile is_alpha (rev r) @ CHR ''.'' # m)"
    using dw c by simp
  then have r: "r = rev m @ ''.'' @ rev (takeWhile is_alpha (rev r))" by simp
  have "list_all is_alpha (rev (takeWhile is_alpha (rev r)))"
    by (auto simp: list_all_iff dest: set_takeWhileD)
  with r m len show "\<exists>dm tld. r = dm @ ''.'' @ tld \<and> dm \<noteq> [] \<and> list_all domain_char dm
        \<and> 2 \<le> length tld \<and> list_all is_alpha tld"
    by (intro exI [of _ "rev m"] exI [of _ "rev (takeWhile is_alpha (rev r))"])
      (simp add: list_all_iff)
next
  assume "\<exists>dm tld. r = dm @ ''.'' @ tld \<and> dm \<noteq> [] \<and> list_all domain_char dm
        \<and> 2 \<le> length tld \<and> list_all is_alpha tld"
  then obtain dm tld where r: "r = dm @ ''.'' @ tld" and dm: "dm \<noteq> []" "list_all domain_char dm"
    and tld: "2 \<le> length tld" "list_all is_alpha tld" by blast
  from r have rr: "rev r = rev tld @ CHR ''.'' # rev dm" by simp
  have t: "takeWhile is_alpha (rev tld @ ys) = rev tld @ takeWhile is_alpha ys" for ys
    by (rule takeWhile_append2) (use tld(2) in \<open>simp add: list_all_iff\<close>)
  have d: "dropWhile is_alpha (rev tld @ ys) = dropWhile is_alpha ys" for ys
    by (rule dropWhile_append2) (use tld(2) in \<open>simp add: list_all_iff\<close>)
  have tw: "takeWhile is_alpha (rev r) = rev tld"
    unfolding rr t using not_alpha_dot by simp
  have dw: "dropWhile is_alpha (rev r) = CHR ''.'' # rev dm"
    unfolding rr d using not_alpha_dot by simp
  from tw dw dm tld show "domain_tld r"
    by (simp add: domain_tld_def Let_def list_all_iff)
qed

text \<open>
  \<open>email_full\<close> accepts exactly the strings the pattern describes: a non-empty local
  part, \<open>@\<close>, a non-empty domain, a dot, and at least two letters.
\<close>

lemma email_full_iff:
  "email_full s \<longleftrightarrow>
     (\<exists>l dm tld. s = l @ ''@'' @ dm @ ''.'' @ tld \<and> l \<noteq> [] \<and> list_all local_char l
        \<and> dm \<noteq> [] \<and> list_all domain_char dm \<and> 2 \<le> length tld \<and> list_all is_alpha tld)"
proof
  assume a: "email_full s"
  then obtain c r where dw: "dropWhile local_char s = c # r"
    by (auto simp: email_full_def split: list.splits)
  with a have c: "c = CHR ''@''" and l: "takeWhile local_char s \<noteq> []" and d: "domain_tld r"
    by (simp_all add: email_full_def)
  have "s = takeWhile local_char s @ dropWhile local_char s" by simp
  with dw c have s: "s = takeWhile local_char s @ ''@'' @ r" by simp
  have ll: "list_all local_char (takeWhile local_char s)"
    by (auto simp: list_all_iff dest: set_takeWhileD)
  from d obtain dm tld where "r = dm @ ''.'' @ tld" "dm \<noteq> []" "list_all domain_char dm"
    "2 \<le> length tld" "list_all is_alpha tld"
    by (auto simp: domain_tld_iff)
  with s l ll show "\<exists>l dm tld. s = l @ ''@'' @ dm @ ''.'' @ tld \<and> l \<noteq> [] \<and> list_all local_char l
        \<and> dm \<noteq> [] \<and> list_all domain_char dm \<and> 2 \<le> length tld \<and> list_all is_alpha tld"
    by (intro exI [of _ "takeWhile local_char s"] exI [of _ dm] exI [of _ tld]) simp
next
  assume "\<exists>l dm tld. s = l @ ''@'' @ dm @ ''.'' @ tld \<and> l \<noteq> [] \<and> list_all local_char l
        \<and> dm \<noteq> [] \<and> list_all domain_char dm \<and> 2 \<le> length tld \<and> list_all is_alpha tld"
  then obtain l dm tld where s: "s = l @ CHR ''@'' # (dm @ ''.'' @ tld)" and l: "l \<noteq> []"
    "list_all local_char l" and rest: "dm \<noteq> []" "list_all domain_char dm" "2 \<le> length tld"
    "list_all is_alpha tld" by auto
  have t: "takeWhile local_char (l @ ys) = l @ takeWhile local_char ys" for ys
    by (rule takeWhile_append2) (use l(2) in \<open>simp add: list_all_iff\<close>)
  have d: "dropWhile local_char (l @ ys) = dropWhile local_char ys" for ys
    by (rule dropWhile_append2) (use l(2) in \<open>simp add: list_all_iff\<close>)
  have tw: "takeWhile local_char s = l"
    unfolding s t using not_local_at by simp
  have dw: "dropWhile local_char s = CHR ''@'' # (dm @ ''.'' @ tld)"
    unfolding s d using not_local_at by simp
  from rest have "domain_tld (dm @ ''.'' @ tld)"
    unfolding domain_tld_iff by blast
  with tw dw l show "email_full s" by (simp add: email_full_def)
qed

subsection \<open>The frame of \<open>update_user\<close>\<close>

text \<open>
  Claim C2. For a stored record \<open>u\<close> and any payload, \<open>update_user\<close> returns a record
  \<open>u'\<close> and stores it under the same key: each of name, email, age and position is the
  payload's value where the payload names the field and the value of \<open>u\<close> where it does
  not; \<open>updated_at\<close> is the time of the call; \<open>created_at\<close> and the identifier are those
  of \<open>u\<close>. Every other record, the order of the keys and the counter stay as they were.
\<close>

theorem update_user_frame:
  assumes "get_user_by_id self user_id = Some u"
  shows "\<exists>u'. update_user self user_id d now
           = (Some u', self\<lparr>users := AList.update user_id u' (users self)\<rparr>)
     \<and> name u' = (case d ''name'' of None \<Rightarrow> name u | Some v \<Rightarrow> v)
     \<and> email u' = (case d ''email'' of None \<Rightarrow> email u | Some v \<Rightarrow> v)
     \<and> age u' = (case d ''age'' of None \<Rightarrow> age u | Some v \<Rightarrow> v)
     \<and> position u' = (case d ''position'' of None \<Rightarrow> position u | Some v \<Rightarrow> v)
     \<and> updated_at u' = now
     \<and> created_at u' = created_at u
     \<and> id' u' = id' u
     \<and> get_user_by_id (snd (update_user self user_id d now)) user_id = Some u'
     \<and> (\<forall>k. k \<noteq> user_id \<longrightarrow>
           get_user_by_id (snd (update_user self user_id d now)) k = get_user_by_id self k)
     \<and> map fst (users (snd (update_user self user_id d now))) = map fst (users self)
     \<and> next_id (snd (update_user self user_id d now)) = next_id self"
proof -
  from assms have present: "map_of (users self) user_id = Some u"
    by (simp add: get_user_by_id_def)
  then have key: "user_id \<in> set (map fst (users self))"
    by (metis map_of_eq_None_iff option.distinct(1) set_map)
  show ?thesis
    using present key
    by (simp add: update_user_def Let_def get_user_by_id_def AList.update_conv' AList.update_keys
        split: option.splits)
qed

theorem update_user_frame_witness:
  "get_user_by_id UserManager_init 1 \<noteq> None
   \<and> (\<exists>u'. fst (update_user UserManager_init 1 update_data t1) = Some u'
        \<and> name u' = JStr ''John Updated'' \<and> position u' = JStr ''Senior Developer''
        \<and> email u' = JStr ''john.doe@example.com'' \<and> age u' = JInt 30
        \<and> updated_at u' = t1 \<and> created_at u' = seed_time \<and> id' u' = 1)"
proof -
  define john where "john = snd (hd (users UserManager_init))"
  have present: "get_user_by_id UserManager_init 1 = Some john"
    by (simp add: get_user_by_id_def UserManager_init_def john_def)
  from update_user_frame [OF present, of update_data t1]
  obtain u' where u': "update_user UserManager_init 1 update_data t1
           = (Some u', UserManager_init\<lparr>users := AList.update 1 u' (users UserManager_init)\<rparr>)"
     "name u' = (case update_data ''name'' of None \<Rightarrow> name john | Some v \<Rightarrow> v)"
     "email u' = (case update_data ''email'' of None \<Rightarrow> email john | Some v \<Rightarrow> v)"
     "age u' = (case update_data ''age'' of None \<Rightarrow> age john | Some v \<Rightarrow> v)"
     "position u' = (case update_data ''position'' of None \<Rightarrow> position john | Some v \<Rightarrow> v)"
     "updated_at u' = t1" "created_at u' = created_at john" "id' u' = id' john"
    by blast
  from u' have "fst (update_user UserManager_init 1 update_data t1) = Some u'
        \<and> name u' = JStr ''John Updated'' \<and> position u' = JStr ''Senior Developer''
        \<and> email u' = JStr ''john.doe@example.com'' \<and> age u' = JInt 30
        \<and> updated_at u' = t1 \<and> created_at u' = seed_time \<and> id' u' = 1"
    by (simp add: update_data_def UserManager_init_def john_def)
  with present show ?thesis by blast
qed

subsection \<open>Validation\<close>

lemma required_loop_acc:
  "required_loop fs d errs
     = errs @ map required_msg (filter (\<lambda>f. case d f of None \<Rightarrow> True | Some v \<Rightarrow> \<not> truthy v) fs)"
  by (induction fs arbitrary: errs) auto

lemma check_email_acc:
  "check_email d errs = (case check_email d [] of Inl e \<Rightarrow> Inl e | Inr es \<Rightarrow> Inr (errs @ es))"
  by (simp add: check_email_def split: option.splits sum.splits)

lemma check_age_acc:
  "check_age d errs = (case check_age d [] of Inl e \<Rightarrow> Inl e | Inr es \<Rightarrow> Inr (errs @ es))"
  by (simp add: check_age_def split: option.splits sum.splits exn.splits)

lemma check_name_acc:
  "check_name d errs = (case check_name d [] of Inl e \<Rightarrow> Inl e | Inr es \<Rightarrow> Inr (errs @ es))"
  by (simp add: check_name_def split: option.splits sum.splits)

lemma check_position_acc:
  "check_position d errs = (case check_position d [] of Inl e \<Rightarrow> Inl e | Inr es \<Rightarrow> Inr (errs @ es))"
  by (simp add: check_position_def split: option.splits sum.splits)

lemma validate_unfold:
  "validate_user_data d is_update =
     (case check_email d [] of
        Inl e \<Rightarrow> Inl e
      | Inr e1 \<Rightarrow>
          (case check_age d [] of
             Inl e \<Rightarrow> Inl e
           | Inr e2 \<Rightarrow>
               (case check_name d [] of
                  Inl e \<Rightarrow> Inl e
                | Inr e3 \<Rightarrow>
                    (case check_position d [] of
                       Inl e \<Rightarrow> Inl e
                     | Inr e4 \<Rightarrow>
                         Inr ((if is_update then [] else required_loop required_fields d [])
                              @ e1 @ e2 @ e3 @ e4)))))"
proof -
  define r where "r = (if \<not> is_update then required_loop required_fields d [] else [])"
  have v: "validate_user_data d is_update =
     (case check_email d r of Inl e \<Rightarrow> Inl e
      | Inr errs1 \<Rightarrow> (case check_age d errs1 of Inl e \<Rightarrow> Inl e
         | Inr errs2 \<Rightarrow> (case check_name d errs2 of Inl e \<Rightarrow> Inl e
            | Inr errs3 \<Rightarrow> check_position d errs3)))"
    by (simp add: validate_user_data_def r_def)
  show ?thesis
  proof (cases "check_email d []")
    case (Inl e)
    with check_email_acc [of d r] v show ?thesis by simp
  next
    case e1: (Inr e1)
    with check_email_acc [of d r] have c1: "check_email d r = Inr (r @ e1)" by simp
    show ?thesis
    proof (cases "check_age d []")
      case (Inl e)
      with check_age_acc [of d "r @ e1"] v c1 e1 show ?thesis by simp
    next
      case e2: (Inr e2)
      with check_age_acc [of d "r @ e1"]
      have c2: "check_age d (r @ e1) = Inr ((r @ e1) @ e2)" by simp
      show ?thesis
      proof (cases "check_name d []")
        case (Inl e)
        with check_name_acc [of d "(r @ e1) @ e2"] v c1 c2 e1 e2 show ?thesis by simp
      next
        case e3: (Inr e3)
        with check_name_acc [of d "(r @ e1) @ e2"]
        have c3: "check_name d ((r @ e1) @ e2) = Inr (((r @ e1) @ e2) @ e3)" by simp
        from check_position_acc [of d "((r @ e1) @ e2) @ e3"] v c1 c2 c3 e1 e2 e3
        show ?thesis by (simp add: r_def split: sum.splits)
      qed
    qed
  qed
qed

lemma validate_concat:
  "validate_user_data d is_update = Inr errs \<longleftrightarrow>
     (\<exists>e1 e2 e3 e4. check_email d [] = Inr e1 \<and> check_age d [] = Inr e2
        \<and> check_name d [] = Inr e3 \<and> check_position d [] = Inr e4
        \<and> errs = (if is_update then [] else required_loop required_fields d [])
                   @ e1 @ e2 @ e3 @ e4)"
  by (auto simp: validate_unfold split: sum.splits)

lemma py_int_exn: "py_int v = Inl e \<Longrightarrow> e = TypeError \<or> e = ValueError \<or> e = OverflowError"
  by (induction v rule: py_int.induct) (auto split: option.splits if_splits)

lemma validate_invalid_user:
  "validate_user_data invalid_user False
     = Inr [required_msg ''name'', required_msg ''position'', ''Invalid email format'',
            ''Age must be between 0 and 150'']"
  by code_simp

lemma create_route_invalid:
  "validate_user_data d False = Inr errs \<Longrightarrow> errs \<noteq> [] \<Longrightarrow>
   create_user_route self (Json d) now ts
     = (create_response ts None (Some ''Validation failed'') 400 (Some (map Text errs)), self)"
  by (simp add: create_user_route_def create_user_try_def)

lemma create_route_valid_status:
  "validate_user_data d False = Inr [] \<Longrightarrow>
   status_code (fst (create_user_route self (Json d) now ts)) \<in> {201, 409, 500}"
  by (auto simp: create_user_route_def create_user_try_def create_response_def create_user_def Let_def
      split: sum.splits bool.splits prod.splits)

lemma update_route_invalid:
  "get_user_by_id self user_id = Some u \<Longrightarrow> validate_user_data d True = Inr errs \<Longrightarrow> errs \<noteq> [] \<Longrightarrow>
   update_user_route self user_id (Json d) now ts
     = (create_response ts None (Some ''Validation failed'') 400 (Some (map Text errs)), self)"
  by (simp add: update_user_route_def update_user_try_def)

lemma update_route_valid_status:
  "get_user_by_id self user_id = Some u \<Longrightarrow> validate_user_data d True = Inr [] \<Longrightarrow>
   status_code (fst (update_user_route self user_id (Json d) now ts)) \<in> {200, 409, 500}"
  by (auto simp: update_user_route_def update_user_try_def create_response_def
      split: sum.splits bool.splits prod.splits)

lemma create_route_payload:
  "payload_of bdy = Inr d \<Longrightarrow> bdy \<noteq> NotJson \<Longrightarrow>
   create_user_route s bdy now ts = create_user_route s (Json d) now ts"
  by (cases bdy) (simp_all add: create_user_route_def)

lemma create_route_no_payload:
  "payload_of bdy = Inl e \<or> bdy = NotJson \<Longrightarrow>
   snd (create_user_route s bdy now ts) = s
   \<and> data (fst (create_user_route s bdy now ts)) = None
   \<and> status_code (fst (create_user_route s bdy now ts)) \<in> {400, 500}"
  by (cases bdy) (auto simp: create_user_route_def create_response_def)

lemma update_route_payload:
  "payload_of bdy = Inr d \<Longrightarrow> bdy \<noteq> NotJson \<Longrightarrow>
   update_user_route s user_id bdy now ts = update_user_route s user_id (Json d) now ts"
  by (cases bdy) (simp_all add: update_user_route_def split: option.splits)

lemma update_route_no_payload:
  "payload_of bdy = Inl e \<or> bdy = NotJson \<Longrightarrow>
   snd (update_user_route s user_id bdy now ts) = s
   \<and> data (fst (update_user_route s user_id bdy now ts)) = None"
  by (cases bdy) (auto simp: update_user_route_def create_response_def split: option.splits)

lemma body_cases:
  obtains (none) e where "payload_of bdy = Inl e \<or> bdy = NotJson"
  | (some) d where "payload_of bdy = Inr d" "bdy \<noteq> NotJson"
  by (cases bdy; cases "payload_of bdy") auto

lemma create_json_201:
  assumes "status_code (fst (create_user_route self (Json d) now ts)) = 201"
  shows "validate_user_data d False = Inr []
     \<and> email_exists (get_all_users self) d = Inr False
     \<and> create_user_route self (Json d) now ts
         = (create_response ts (Some (DUser (Some (fst (create_user self d now)))))
              (Some ''User created successfully'') 201 None,
            snd (create_user self d now))"
  using assms
  by (auto simp: create_user_route_def create_user_try_def create_response_def
      split: sum.splits bool.splits prod.splits if_splits)

lemma create_route_201:
  assumes "status_code (fst (create_user_route self bdy now ts)) = 201"
  shows "\<exists>d. payload_of bdy = Inr d \<and> validate_user_data d False = Inr []
     \<and> email_exists (get_all_users self) d = Inr False
     \<and> create_user_route self bdy now ts
         = (create_response ts (Some (DUser (Some (fst (create_user self d now)))))
              (Some ''User created successfully'') 201 None,
            snd (create_user self d now))"
proof (cases bdy rule: body_cases)
  case (none e)
  from create_route_no_payload [OF this, of self now ts] assms show ?thesis by auto
next
  case (some d)
  from create_route_payload [OF some] assms create_json_201 [of self d now ts]
  show ?thesis using some(1) by auto
qed

lemma validate_ok_fields:
  assumes "validate_user_data d False = Inr []" and "f \<in> set required_fields"
  shows "\<exists>v. d f = Some v \<and> truthy v"
proof -
  from assms(1) have "required_loop required_fields d [] = []"
    by (auto simp: validate_concat)
  then have "filter (\<lambda>f. case d f of None \<Rightarrow> True | Some v \<Rightarrow> \<not> truthy v) required_fields = []"
    by (simp add: required_loop_acc)
  with assms(2) have "\<not> (case d f of None \<Rightarrow> True | Some v \<Rightarrow> \<not> truthy v)"
    by (simp add: filter_empty_conv)
  then show ?thesis by (cases "d f") auto
qed

lemma created_age_truthy:
  assumes "status_code (fst (create_user_route self (Json d) now ts)) = 201"
  shows "\<exists>u. data (fst (create_user_route self (Json d) now ts)) = Some (DUser (Some u))
     \<and> age u = dict_get d ''age'' \<and> truthy (age u)"
proof -
  from create_route_201 [OF assms]
  have v: "validate_user_data d False = Inr []"
    and r: "create_user_route self (Json d) now ts
         = (create_response ts (Some (DUser (Some (fst (create_user self d now)))))
              (Some ''User created successfully'') 201 None,
            snd (create_user self d now))"
    by auto
  from validate_ok_fields [OF v, of "''age''"]
  obtain a where a: "d ''age'' = Some a" "truthy a"
    by (auto simp: required_fields_def)
  from r a show ?thesis
    by (simp add: create_response_def create_user_def Let_def dict_get_def)
qed

lemma required_loop_spec: "required_loop required_fields d [] = spec_required d"
  by (simp add: required_loop_acc spec_required_def)

lemma check_email_cases:
  "check_email d [] =
     (if (\<exists>v. d ''email'' = Some v \<and> truthy v \<and> \<not> is_str v) then Inl TypeError
      else Inr (spec_email d))"
proof (cases "d ''email''")
  case None
  then show ?thesis by (simp add: check_email_def spec_email_def)
next
  case (Some v)
  then show ?thesis
    by (cases v) (simp_all add: check_email_def spec_email_def is_str_def)
qed

lemma check_name_cases:
  "check_name d [] =
     (if (\<exists>v. d ''name'' = Some v \<and> truthy v \<and> \<not> is_str v) then Inl AttributeError
      else Inr (spec_name d))"
proof (cases "d ''name''")
  case None
  then show ?thesis by (simp add: check_name_def spec_name_def)
next
  case (Some v)
  then show ?thesis
    by (cases v) (simp_all add: check_name_def spec_name_def is_str_def)
qed

lemma check_position_cases:
  "check_position d [] =
     (if (\<exists>v. d ''position'' = Some v \<and> truthy v \<and> \<not> is_str v) then Inl AttributeError
      else Inr (spec_position d))"
proof (cases "d ''position''")
  case None
  then show ?thesis by (simp add: check_position_def spec_position_def)
next
  case (Some v)
  then show ?thesis
    by (cases v) (simp_all add: check_position_def spec_position_def is_str_def)
qed

lemma py_int_overflow_iff:
  "py_int v = Inl OverflowError \<longleftrightarrow> v = JFloat PosInf \<or> v = JFloat NegInf"
  by (induction v rule: py_int.induct) (auto split: option.splits)

lemma check_age_cases:
  "check_age d [] =
     (if d ''age'' = Some (JFloat PosInf) \<or> d ''age'' = Some (JFloat NegInf)
      then Inl OverflowError else Inr (spec_age d))"
proof (cases "d ''age''")
  case None
  then show ?thesis by (simp add: check_age_def spec_age_def)
next
  case (Some v)
  show ?thesis
  proof (cases "truthy v")
    case False
    with Some show ?thesis by (auto simp: check_age_def spec_age_def)
  next
    case True
    show ?thesis
    proof (cases "py_int v")
      case (Inr a)
      with py_int_overflow_iff [of v] have "v \<noteq> JFloat PosInf \<and> v \<noteq> JFloat NegInf" by auto
      with Some True Inr show ?thesis
        by (auto simp: check_age_def spec_age_def)
    next
      case (Inl e)
      from py_int_exn [OF Inl] py_int_overflow_iff [of v] Inl Some True show ?thesis
        by (auto simp: check_age_def spec_age_def)
    qed
  qed
qed

lemma payload_typed_iff:
  "payload_typed d \<longleftrightarrow>
     \<not> (\<exists>v. d ''email'' = Some v \<and> truthy v \<and> \<not> is_str v)
     \<and> \<not> (d ''age'' = Some (JFloat PosInf) \<or> d ''age'' = Some (JFloat NegInf))
     \<and> \<not> (\<exists>v. d ''name'' = Some v \<and> truthy v \<and> \<not> is_str v)
     \<and> \<not> (\<exists>v. d ''position'' = Some v \<and> truthy v \<and> \<not> is_str v)"
  by (auto simp: payload_typed_def)

lemma validate_spec:
  "validate_user_data d is_update =
     (if payload_typed d then Inr (spec_errors d is_update)
      else Inl (if (\<exists>v. d ''email'' = Some v \<and> truthy v \<and> \<not> is_str v) then TypeError
                else if d ''age'' = Some (JFloat PosInf) \<or> d ''age'' = Some (JFloat NegInf)
                then OverflowError else AttributeError))"
proof -
  define E where "E \<longleftrightarrow> (\<exists>v. d ''email'' = Some v \<and> truthy v \<and> \<not> is_str v)"
  define A where "A \<longleftrightarrow> d ''age'' = Some (JFloat PosInf) \<or> d ''age'' = Some (JFloat NegInf)"
  define N where "N \<longleftrightarrow> (\<exists>v. d ''name'' = Some v \<and> truthy v \<and> \<not> is_str v)"
  define P where "P \<longleftrightarrow> (\<exists>v. d ''position'' = Some v \<and> truthy v \<and> \<not> is_str v)"
  have ce: "check_email d [] = (if E then Inl TypeError else Inr (spec_email d))"
    unfolding E_def by (rule check_email_cases)
  have ca: "check_age d [] = (if A then Inl OverflowError else Inr (spec_age d))"
    unfolding A_def by (rule check_age_cases)
  have cn: "check_name d [] = (if N then Inl AttributeError else Inr (spec_name d))"
    unfolding N_def by (rule check_name_cases)
  have cp: "check_position d [] = (if P then Inl AttributeError else Inr (spec_position d))"
    unfolding P_def by (rule check_position_cases)
  have pt: "payload_typed d \<longleftrightarrow> \<not> E \<and> \<not> A \<and> \<not> N \<and> \<not> P"
    unfolding E_def A_def N_def P_def by (rule payload_typed_iff)
  have "validate_user_data d is_update =
     (if \<not> E \<and> \<not> A \<and> \<not> N \<and> \<not> P then Inr (spec_errors d is_update)
      else Inl (if E then TypeError else if A then OverflowError else AttributeError))"
    unfolding validate_unfold ce ca cn cp spec_errors_def required_loop_spec
    by (cases E; cases A; cases N; cases P) simp_all
  with pt have "validate_user_data d is_update =
     (if payload_typed d then Inr (spec_errors d is_update)
      else Inl (if E then TypeError else if A then OverflowError else AttributeError))"
    by simp
  then show ?thesis
    unfolding E_def A_def .
qed

lemma create_route_raises:
  "validate_user_data d False = Inl e \<Longrightarrow>
   create_user_route self (Json d) now ts
     = (create_response ts None (Some ''Error creating user'') 500 (Some [StrOf e]), self)"
  by (simp add: create_user_route_def create_user_try_def)

lemma update_route_raises:
  "get_user_by_id self user_id \<noteq> None \<Longrightarrow> validate_user_data d True = Inl e \<Longrightarrow>
   update_user_route self user_id (Json d) now ts
     = (create_response ts None (Some ''Error updating user'') 500 (Some [StrOf e]), self)"
  by (auto simp: update_user_route_def update_user_try_def)

text \<open>
  Claim C5, as amended. \<open>validate_user_data\<close> depends on the payload and the mode only
  (the method never reads \<^verbatim>\<open>self\<close>). It returns a list exactly on the payloads in which
  name, email and position, where present and not empty, are strings and the age is not
  an infinite float. On these it returns the messages of every rule that the payload
  triggers, one after the other: the required fields (create mode only), then email,
  age, name and position, each rule judged on its own field whatever the others
  reported. A non-empty result makes the POST and PUT handlers answer 400 with exactly
  these messages and an unchanged store; an empty result lets them go on. The payload
  \<open>{name: '', email: 'bad', age: -5, position: ''}\<close> yields four different messages in
  create mode, and POST reports all four.
\<close>

theorem validation_collects_all_messages:
  "((\<exists>es. validate_user_data d is_update = Inr es) \<longleftrightarrow> payload_typed d)
   \<and> (payload_typed d \<longrightarrow> validate_user_data d is_update = Inr (spec_errors d is_update))
   \<and> (payload_typed d \<and> spec_errors d False \<noteq> [] \<longrightarrow>
        create_user_route self (Json d) now ts
          = (create_response ts None (Some ''Validation failed'') 400
               (Some (map Text (spec_errors d False))), self))
   \<and> (payload_typed d \<and> spec_errors d False = [] \<longrightarrow>
        status_code (fst (create_user_route self (Json d) now ts)) \<in> {201, 409, 500})
   \<and> (payload_typed d \<and> get_user_by_id self user_id \<noteq> None \<and> spec_errors d True \<noteq> [] \<longrightarrow>
        update_user_route self user_id (Json d) now ts
          = (create_response ts None (Some ''Validation failed'') 400
               (Some (map Text (spec_errors d True))), self))
   \<and> (payload_typed d \<and> get_user_by_id self user_id \<noteq> None \<and> spec_errors d True = [] \<longrightarrow>
        status_code (fst (update_user_route self user_id (Json d) now ts)) \<in> {200, 409, 500})
   \<and> validate_user_data invalid_user False
       = Inr [required_msg ''name'', required_msg ''position'', ''Invalid email format'',
              ''Age must be between 0 and 150'']
   \<and> distinct [required_msg ''name'', required_msg ''position'', ''Invalid email format'',
              ''Age must be between 0 and 150'']
   \<and> create_user_route self (Json invalid_user) now ts
       = (create_response ts None (Some ''Validation failed'') 400
            (Some [Text (required_msg ''name''), Text (required_msg ''position''),
                   Text ''Invalid email format'', Text ''Age must be between 0 and 150'']), self)"
proof (intro conjI impI)
  show "(\<exists>es. validate_user_data d is_update = Inr es) \<longleftrightarrow> payload_typed d"
    by (simp add: validate_spec)
  show "validate_user_data d is_update = Inr (spec_errors d is_update)" if "payload_typed d"
    using that by (simp add: validate_spec)
  show "create_user_route self (Json d) now ts
          = (create_response ts None (Some ''Validation failed'') 400
               (Some (map Text (spec_errors d False))), self)"
    if "payload_typed d \<and> spec_errors d False \<noteq> []"
    using that create_route_invalid [of d "spec_errors d False" self now ts]
    by (simp add: validate_spec)
  show "status_code (fst (create_user_route self (Json d) now ts)) \<in> {201, 409, 500}"
    if "payload_typed d \<and> spec_errors d False = []"
    using that create_route_valid_status [of d self now ts]
    by (simp add: validate_spec)
  show "update_user_route self user_id (Json d) now ts
          = (create_response ts None (Some ''Validation failed'') 400
               (Some (map Text (spec_errors d True))), self)"
    if "payload_typed d \<and> get_user_by_id self user_id \<noteq> None \<and> spec_errors d True \<noteq> []"
    using that update_route_invalid [of self user_id _ d "spec_errors d True" now ts]
    by (auto simp: validate_spec)
  show "status_code (fst (update_user_route self user_id (Json d) now ts)) \<in> {200, 409, 500}"
    if "payload_typed d \<and> get_user_by_id self user_id \<noteq> None \<and> spec_errors d True = []"
    using that update_route_valid_status [of self user_id _ d now ts]
    by (auto simp: validate_spec)
  show inv: "validate_user_data invalid_user False
       = Inr [required_msg ''name'', required_msg ''position'', ''Invalid email format'',
              ''Age must be between 0 and 150'']"
    by (rule validate_invalid_user)
  show "distinct [required_msg ''name'', required_msg ''position'', ''Invalid email format'',
              ''Age must be between 0 and 150'']"
    by (simp add: required_msg_def)
  from create_route_invalid [OF inv]
  show "create_user_route self (Json invalid_user) now ts
       = (create_response ts None (Some ''Validation failed'') 400
            (Some [Text (required_msg ''name''), Text (required_msg ''position''),
                   Text ''Invalid email format'', Text ''Age must be between 0 and 150'']), self)"
    by simp
qed

theorem validation_collects_all_messages_witness:
  "validate_user_data short_name_user False
     = Inr [''Name must be at least 2 characters long'',
            ''Position must be at least 2 characters long'']
   \<and> create_user_route UserManager_init (Json short_name_user) t1 t2
       = (create_response t2 None (Some ''Validation failed'') 400
            (Some [Text ''Name must be at least 2 characters long'',
                   Text ''Position must be at least 2 characters long'']), UserManager_init)
   \<and> validate_user_data invalid_user True
       = Inr [''Invalid email format'', ''Age must be between 0 and 150'']
   \<and> get_user_by_id UserManager_init 1 \<noteq> None
   \<and> update_user_route UserManager_init 1 (Json invalid_user) t1 t2
       = (create_response t2 None (Some ''Validation failed'') 400
            (Some [Text ''Invalid email format'', Text ''Age must be between 0 and 150'']),
          UserManager_init)
   \<and> validate_user_data new_user False = Inr []
   \<and> status_code (fst (create_user_route UserManager_init (Json new_user) t1 t2))
       \<in> {201, 409, 500}
   \<and> validate_user_data update_data True = Inr []
   \<and> status_code (fst (update_user_route UserManager_init 1 (Json update_data) t1 t2))
       \<in> {200, 409, 500}"
proof -
  have ty: "payload_typed short_name_user" "payload_typed invalid_user" "payload_typed new_user"
    "payload_typed update_data"
    by (simp_all add: payload_typed_def short_name_user_def invalid_user_def new_user_def
        update_data_def is_str_def)
  have sp: "spec_errors short_name_user False
      = [''Name must be at least 2 characters long'',
         ''Position must be at least 2 characters long'']"
    "spec_errors invalid_user True = [''Invalid email format'', ''Age must be between 0 and 150'']"
    "spec_errors new_user False = []" "spec_errors update_data True = []"
    by code_simp+
  have g: "get_user_by_id UserManager_init 1 \<noteq> None"
    by (simp add: get_user_by_id_def UserManager_init_def)
  note a = validation_collects_all_messages [of short_name_user False UserManager_init t1 t2 1]
  note b = validation_collects_all_messages [of invalid_user True UserManager_init t1 t2 1]
  note c = validation_collects_all_messages [of new_user False UserManager_init t1 t2 1]
  note d = validation_collects_all_messages [of update_data True UserManager_init t1 t2 1]
  from a ty(1) have a1: "validate_user_data short_name_user False
      = Inr (spec_errors short_name_user False)"
    by blast
  from a ty(1) sp(1) have a2: "create_user_route UserManager_init (Json short_name_user) t1 t2
       = (create_response t2 None (Some ''Validation failed'') 400
            (Some (map Text (spec_errors short_name_user False))), UserManager_init)"
    by simp
  from b ty(2) have b1: "validate_user_data invalid_user True
      = Inr (spec_errors invalid_user True)"
    by blast
  from b ty(2) sp(2) g have b2: "update_user_route UserManager_init 1 (Json invalid_user) t1 t2
       = (create_response t2 None (Some ''Validation failed'') 400
            (Some (map Text (spec_errors invalid_user True))), UserManager_init)"
    by simp
  from c ty(3) have c1: "validate_user_data new_user False = Inr (spec_errors new_user False)"
    by blast
  from c ty(3) sp(3) have c2:
    "status_code (fst (create_user_route UserManager_init (Json new_user) t1 t2))
       \<in> {201, 409, 500}"
    by blast
  from d ty(4) have d1: "validate_user_data update_data True
      = Inr (spec_errors update_data True)"
    by blast
  from d ty(4) sp(4) g have d2:
    "status_code (fst (update_user_route UserManager_init 1 (Json update_data) t1 t2))
       \<in> {200, 409, 500}"
    by blast
  from a1 a2 b1 b2 c1 c2 d1 d2 g show ?thesis
    by (simp add: sp)
qed

text \<open>
  The claim as stated fails for a payload with a field of the wrong type: with the
  number 123 as email, the payload of the claim raises \<^verbatim>\<open>TypeError\<close> in the email
  block, after the required-field loop has found two errors and before the age block
  runs; no list is returned and POST answers 500.
\<close>

theorem validation_raises_counterexample:
  "untyped_email_user ''name'' = Some (JStr [])
   \<and> untyped_email_user ''email'' = Some (JInt 123)
   \<and> untyped_email_user ''age'' = Some (JInt (- 5))
   \<and> untyped_email_user ''position'' = Some (JStr [])
   \<and> validate_user_data untyped_email_user False = Inl TypeError
   \<and> create_user_route UserManager_init (Json untyped_email_user) t1 t2
       = (create_response t2 None (Some ''Error creating user'') 500 (Some [StrOf TypeError]),
          UserManager_init)"
  by code_simp

text \<open>
  Claim C10, as amended. In create mode a payload whose age is present but falsy (the
  integer 0, the empty string, \<open>null\<close>) triggers the rule \<open>Field 'age' is required\<close>
  and not the age rule. If validation returns, that is, if name, email and position are
  strings where present and not empty, the message is among the errors and POST answers
  400 with them. In every case POST leaves the store unchanged and returns no record. A
  record returned with status 201 has a truthy age, so never the integer 0; the string
  \<open>'0'\<close>, which \<^verbatim>\<open>int\<close> reads as 0, is accepted.
\<close>

theorem falsy_age_is_missing:
  assumes "d ''age'' = Some v" and "\<not> truthy v"
  shows "required_msg ''age'' = ''Field '' @ [CHR 0x27] @ ''age'' @ [CHR 0x27] @ '' is required''
    \<and> required_msg ''age'' \<in> set (spec_required d)
    \<and> spec_age d = []
    \<and> (payload_typed d \<longrightarrow>
          validate_user_data d False = Inr (spec_errors d False)
          \<and> required_msg ''age'' \<in> set (spec_errors d False)
          \<and> create_user_route self (Json d) now ts
              = (create_response ts None (Some ''Validation failed'') 400
                   (Some (map Text (spec_errors d False))), self))
    \<and> snd (create_user_route self (Json d) now ts) = self
    \<and> status_code (fst (create_user_route self (Json d) now ts)) \<in> {400, 500}
    \<and> data (fst (create_user_route self (Json d) now ts)) = None
    \<and> (\<forall>d'. status_code (fst (create_user_route self (Json d') now ts)) = 201 \<longrightarrow>
          (\<exists>u. data (fst (create_user_route self (Json d') now ts)) = Some (DUser (Some u))
             \<and> age u = dict_get d' ''age'' \<and> truthy (age u) \<and> age u \<noteq> JInt 0))
    \<and> py_int (JStr ''0'') = Inr 0
    \<and> status_code (fst (create_user_route UserManager_init (Json string_zero_age_user) t1 t2))
        = 201"
proof -
  have msg: "required_msg ''age'' \<in> set (spec_required d)"
    using assms by (simp add: spec_required_def required_fields_def)
  then have inerrs: "required_msg ''age'' \<in> set (spec_errors d False)"
    by (simp add: spec_errors_def)
  have skip: "spec_age d = []"
    using assms by (simp add: spec_age_def)
  have typed: "validate_user_data d False = Inr (spec_errors d False)
          \<and> required_msg ''age'' \<in> set (spec_errors d False)
          \<and> create_user_route self (Json d) now ts
              = (create_response ts None (Some ''Validation failed'') 400
                   (Some (map Text (spec_errors d False))), self)"
    if ty: "payload_typed d"
  proof -
    from ty have v: "validate_user_data d False = Inr (spec_errors d False)"
      by (simp add: validate_spec)
    from inerrs have "spec_errors d False \<noteq> []" by auto
    from create_route_invalid [OF v this] v inerrs show ?thesis by simp
  qed
  have rest: "snd (create_user_route self (Json d) now ts) = self
    \<and> status_code (fst (create_user_route self (Json d) now ts)) \<in> {400, 500}
    \<and> data (fst (create_user_route self (Json d) now ts)) = None"
  proof (cases "payload_typed d")
    case True
    from typed [OF True] show ?thesis by (simp add: create_response_def)
  next
    case False
    then obtain e where "validate_user_data d False = Inl e"
      by (simp add: validate_spec)
    from create_route_raises [OF this] show ?thesis by (simp add: create_response_def)
  qed
  have created: "\<exists>u. data (fst (create_user_route self (Json d') now ts)) = Some (DUser (Some u))
             \<and> age u = dict_get d' ''age'' \<and> truthy (age u) \<and> age u \<noteq> JInt 0"
    if "status_code (fst (create_user_route self (Json d') now ts)) = 201" for d'
    using created_age_truthy [OF that] by auto
  have zero: "py_int (JStr ''0'') = Inr 0"
    by code_simp
  have accepted:
    "status_code (fst (create_user_route UserManager_init (Json string_zero_age_user) t1 t2)) = 201"
    by code_simp
  from msg skip typed rest created zero accepted show ?thesis
    by (simp add: required_msg_def)
qed

theorem falsy_age_is_missing_witness:
  "zero_age_user ''age'' = Some (JInt 0) \<and> \<not> truthy (JInt 0)
   \<and> validate_user_data zero_age_user False = Inr [required_msg ''age'']
   \<and> create_user_route UserManager_init (Json zero_age_user) t1 t2
       = (create_response t2 None (Some ''Validation failed'') 400
            (Some [Text (required_msg ''age'')]), UserManager_init)"
proof -
  have h1: "zero_age_user ''age'' = Some (JInt 0)" by (simp add: zero_age_user_def)
  have h2: "\<not> truthy (JInt 0)" by simp
  have ty: "payload_typed zero_age_user"
    by (simp add: payload_typed_def zero_age_user_def new_user_def is_str_def)
  have sp: "spec_errors zero_age_user False = [required_msg ''age'']"
    by code_simp
  from falsy_age_is_missing [of zero_age_user "JInt 0" UserManager_init t1 t2] h1 h2 ty
  have "validate_user_data zero_age_user False = Inr (spec_errors zero_age_user False)
     \<and> create_user_route UserManager_init (Json zero_age_user) t1 t2
              = (create_response t2 None (Some ''Validation failed'') 400
                   (Some (map Text (spec_errors zero_age_user False))), UserManager_init)"
    by blast
  with h1 h2 show ?thesis
    by (simp add: sp)
qed

text \<open>
  The claim as stated fails for a payload with a field of the wrong type: with age 0 and
  the number 12 as name, validation raises \<^verbatim>\<open>AttributeError\<close> in the name block and POST
  answers 500 without the message about the age.
\<close>

theorem falsy_age_raises_counterexample:
  "untyped_name_user ''age'' = Some (JInt 0)
   \<and> untyped_name_user ''name'' = Some (JInt 12)
   \<and> validate_user_data untyped_name_user False = Inl AttributeError
   \<and> create_user_route UserManager_init (Json untyped_name_user) t1 t2
       = (create_response t2 None (Some ''Error creating user'') 500
            (Some [StrOf AttributeError]), UserManager_init)"
  by code_simp

subsection \<open>Identifiers assigned by the store\<close>

lemma consecutive_append:
  "ids = map (\<lambda>i. n + int i) [0..<length ids] \<Longrightarrow>
   ids' = map (\<lambda>i. (n + int (length ids)) + int i) [0..<length ids'] \<Longrightarrow>
   ids @ ids' = map (\<lambda>i. n + int i) [0..<length (ids @ ids')]"
proof -
  assume a: "ids = map (\<lambda>i. n + int i) [0..<length ids]"
    and b: "ids' = map (\<lambda>i. (n + int (length ids)) + int i) [0..<length ids']"
  show ?thesis
  proof (rule nth_equalityI)
    show "length (ids @ ids') = length (map (\<lambda>i. n + int i) [0..<length (ids @ ids')])"
      by simp
  next
    fix i assume i: "i < length (ids @ ids')"
    show "(ids @ ids') ! i = map (\<lambda>i. n + int i) [0..<length (ids @ ids')] ! i"
    proof (cases "i < length ids")
      case True
      then have "ids ! i = n + int i"
        by (subst a) simp
      with True i show ?thesis by (simp add: nth_append)
    next
      case False
      with i have j: "i - length ids < length ids'" by simp
      then have "ids' ! (i - length ids) = n + int (length ids) + int (i - length ids)"
        by (subst b) simp
      with False i show ?thesis by (simp add: nth_append)
    qed
  qed
qed

lemma consecutive_props:
  assumes "ids = map (\<lambda>i. n + int i) [0..<length ids]"
  shows "sorted_wrt (<) ids" and "distinct ids"
    and "\<forall>i \<in> set ids. n \<le> i \<and> i < n + int (length ids)"
proof -
  have s: "sorted_wrt (<) (map (\<lambda>i. n + int i) [0..<m])" for m
    by (simp add: sorted_wrt_map sorted_wrt_upt)
  from s [of "length ids"] assms show "sorted_wrt (<) ids" by simp
  have d: "distinct (map (\<lambda>i. n + int i) [0..<m])" for m
    by (simp add: distinct_map inj_on_def)
  from d [of "length ids"] assms show "distinct ids" by simp
  have "\<forall>i \<in> set (map (\<lambda>i. n + int i) [0..<m]). n \<le> i \<and> i < n + int m" for m
    by auto
  from this [of "length ids"] assms show "\<forall>i \<in> set ids. n \<le> i \<and> i < n + int (length ids)"
    by simp
qed

lemma apply_op_next_id:
  "apply_op s op = (ids, s') \<Longrightarrow>
   (ids = [] \<and> next_id s' = next_id s) \<or> (ids = [next_id s] \<and> next_id s' = next_id s + 1)"
  by (cases op)
    (auto simp: create_user_def update_user_def delete_user_def Let_def split: option.splits)

lemma run_ops_consecutive:
  "run_ops s ops = (ids, s') \<Longrightarrow>
   ids = map (\<lambda>i. next_id s + int i) [0..<length ids]
   \<and> next_id s' = next_id s + int (length ids)"
proof (induction ops arbitrary: s ids s')
  case Nil
  then show ?case by simp
next
  case (Cons op ops)
  obtain ids1 s1 where step: "apply_op s op = (ids1, s1)" by (cases "apply_op s op")
  obtain ids2 s2 where rest: "run_ops s1 ops = (ids2, s2)" by (cases "run_ops s1 ops")
  from Cons.prems step rest have eq: "ids = ids1 @ ids2" "s' = s2" by auto
  from Cons.IH [OF rest] have ih: "ids2 = map (\<lambda>i. next_id s1 + int i) [0..<length ids2]"
    "next_id s2 = next_id s1 + int (length ids2)" by auto
  from apply_op_next_id [OF step]
  have one: "ids1 = map (\<lambda>i. next_id s + int i) [0..<length ids1]"
    and nxt: "next_id s1 = next_id s + int (length ids1)"
    by auto
  from ih(1) nxt have "ids2 = map (\<lambda>i. (next_id s + int (length ids1)) + int i) [0..<length ids2]"
    by simp
  from consecutive_append [OF one this] ih(2) nxt eq show ?case by simp
qed

lemma run_ops_next_id_mono: "next_id s \<le> next_id (snd (run_ops s ops))"
proof -
  obtain ids s' where r: "run_ops s ops = (ids, s')" by (cases "run_ops s ops")
  from run_ops_consecutive [OF r] r show ?thesis by simp
qed

text \<open>
  Claim C8. Along every sequence of store operations from the seeded state, the
  identifiers assigned by \<open>create_user\<close> are 4, 5, 6, ... in this order: strictly
  increasing, hence pairwise different, and below the counter. The counter never
  decreases, and \<open>delete_user\<close> leaves it as it is. So after \<open>create_user\<close> has assigned
  an identifier, whatever follows (the deletion of that identifier included), a later
  \<open>create_user\<close> assigns a greater one.
\<close>

theorem identifiers_never_reused:
  "sorted_wrt (<) (fst (run_ops UserManager_init ops))
   \<and> distinct (fst (run_ops UserManager_init ops))
   \<and> (\<forall>i \<in> set (fst (run_ops UserManager_init ops)).
         4 \<le> i \<and> i < next_id (snd (run_ops UserManager_init ops)))
   \<and> next_id (snd (run_ops UserManager_init ops))
       = 4 + int (length (fst (run_ops UserManager_init ops)))
   \<and> next_id self \<le> next_id (snd (run_ops self ops))
   \<and> next_id (snd (delete_user self user_id)) = next_id self
   \<and> id' (fst (create_user self d now))
       < id' (fst (create_user
                     (snd (run_ops (snd (create_user self d now))
                             (ops1 @ [OpDelete (id' (fst (create_user self d now)))] @ ops2)))
                     d' now'))"
proof -
  obtain ids s' where r: "run_ops UserManager_init ops = (ids, s')"
    by (cases "run_ops UserManager_init ops")
  from run_ops_consecutive [OF r]
  have c: "ids = map (\<lambda>i. 4 + int i) [0..<length ids]" and n: "next_id s' = 4 + int (length ids)"
    by (simp_all add: UserManager_init_def)
  note p = consecutive_props [OF c]
  have del: "next_id (snd (delete_user self user_id)) = next_id self"
    by (simp add: delete_user_def split: option.splits)
  have later: "id' (fst (create_user self d now))
       < id' (fst (create_user (snd (run_ops (snd (create_user self d now)) ops')) d' now'))" for ops'
  proof -
    have "next_id (snd (create_user self d now)) = next_id self + 1"
      by (simp add: create_user_def Let_def)
    with run_ops_next_id_mono [of "snd (create_user self d now)" ops']
    have "next_id self < next_id (snd (run_ops (snd (create_user self d now)) ops'))"
      by simp
    then show ?thesis by (simp add: create_user_def Let_def)
  qed
  from p n r del run_ops_next_id_mono [of self ops] later show ?thesis
    by simp
qed

theorem identifiers_never_reused_witness:
  "fst (run_ops UserManager_init [OpCreate new_user t1, OpDelete 4, OpCreate new_user t2]) = [4, 5]
   \<and> sorted_wrt (<) (fst (run_ops UserManager_init
                            [OpCreate new_user t1, OpDelete 4, OpCreate new_user t2]))
   \<and> next_id (snd (run_ops UserManager_init
                     [OpCreate new_user t1, OpDelete 4, OpCreate new_user t2])) = 6
   \<and> map fst (users (snd (run_ops UserManager_init
                             [OpCreate new_user t1, OpDelete 4, OpCreate new_user t2])))
       = [1, 2, 3, 5]"
proof -
  have ids: "fst (run_ops UserManager_init [OpCreate new_user t1, OpDelete 4, OpCreate new_user t2])
      = [4, 5]"
    by (simp add: UserManager_init_def create_user_def delete_user_def Let_def)
  have keys: "map fst (users (snd (run_ops UserManager_init
                                     [OpCreate new_user t1, OpDelete 4, OpCreate new_user t2])))
       = [1, 2, 3, 5]"
    by (simp add: UserManager_init_def create_user_def delete_user_def Let_def)
  from identifiers_never_reused [of "[OpCreate new_user t1, OpDelete 4, OpCreate new_user t2]"
      UserManager_init 1 new_user t1 "[]" "[]" new_user t2]
  have "sorted_wrt (<) (fst (run_ops UserManager_init
                               [OpCreate new_user t1, OpDelete 4, OpCreate new_user t2]))
     \<and> next_id (snd (run_ops UserManager_init
                       [OpCreate new_user t1, OpDelete 4, OpCreate new_user t2]))
         = 4 + int (length (fst (run_ops UserManager_init
                                   [OpCreate new_user t1, OpDelete 4, OpCreate new_user t2])))"
    by blast
  with ids keys show ?thesis by simp
qed

lemma create_json_next_id:
  "create_user_route s (Json d) now ts = (resp, s') \<Longrightarrow>
   (created_id resp = [] \<and> next_id s' = next_id s)
   \<or> (created_id resp = [next_id s] \<and> next_id s' = next_id s + 1)"
  by (auto simp: create_user_route_def create_user_try_def create_response_def created_id_def
      create_user_def Let_def
      split: sum.splits bool.splits prod.splits if_splits)

lemma create_route_next_id:
  assumes "create_user_route s bdy now ts = (resp, s')"
  shows "(created_id resp = [] \<and> next_id s' = next_id s)
   \<or> (created_id resp = [next_id s] \<and> next_id s' = next_id s + 1)"
proof (cases bdy rule: body_cases)
  case (none e)
  from create_route_no_payload [OF this, of s now ts] assms show ?thesis
    by (simp add: created_id_def)
next
  case (some d)
  from create_route_payload [OF some] assms create_json_next_id [of s d now ts resp s']
  show ?thesis by simp
qed

lemma update_json_next_id:
  "update_user_route s user_id (Json d) now ts = (resp, s') \<Longrightarrow>
   created_id resp = [] \<and> next_id s' = next_id s"
  by (auto simp: update_user_route_def update_user_try_def create_response_def created_id_def
      update_user_def Let_def get_user_by_id_def
      split: sum.splits bool.splits prod.splits if_splits option.splits)

lemma update_route_next_id:
  assumes "update_user_route s user_id bdy now ts = (resp, s')"
  shows "created_id resp = [] \<and> next_id s' = next_id s"
proof (cases bdy rule: body_cases)
  case (none e)
  from update_route_no_payload [OF this, of s user_id now ts] assms show ?thesis
    by (simp add: created_id_def)
next
  case (some d)
  from update_route_payload [OF some] assms update_json_next_id [of s user_id d now ts resp s']
  show ?thesis by simp
qed

lemma delete_route_next_id:
  "delete_user_route s user_id ts = (resp, s') \<Longrightarrow>
   created_id resp = [] \<and> next_id s' = next_id s"
  by (auto simp: delete_user_route_def create_response_def created_id_def delete_user_def
      split: option.splits)

lemma handle_next_id:
  "handle s r = (resp, s') \<Longrightarrow>
   (created_id resp = [] \<and> next_id s' = next_id s)
   \<or> (created_id resp = [next_id s] \<and> next_id s' = next_id s + 1)"
  by (cases r) (auto dest: create_route_next_id update_route_next_id delete_route_next_id)

lemma run_consecutive:
  "run s reqs = (resps, s') \<Longrightarrow>
   assigned_ids resps = map (\<lambda>i. next_id s + int i) [0..<length (assigned_ids resps)]
   \<and> next_id s' = next_id s + int (length (assigned_ids resps))"
proof (induction reqs arbitrary: s resps s')
  case Nil
  then show ?case by (simp add: assigned_ids_def)
next
  case (Cons r reqs)
  obtain resp s1 where step: "handle s r = (resp, s1)" by (cases "handle s r")
  obtain resps2 s2 where rest: "run s1 reqs = (resps2, s2)" by (cases "run s1 reqs")
  from Cons.prems step rest have eq: "resps = resp # resps2" "s' = s2" by auto
  then have split: "assigned_ids resps = created_id resp @ assigned_ids resps2"
    by (simp add: assigned_ids_def)
  from Cons.IH [OF rest]
  have ih: "assigned_ids resps2
      = map (\<lambda>i. next_id s1 + int i) [0..<length (assigned_ids resps2)]"
    "next_id s2 = next_id s1 + int (length (assigned_ids resps2))" by auto
  from handle_next_id [OF step]
  have one: "created_id resp = map (\<lambda>i. next_id s + int i) [0..<length (created_id resp)]"
    and nxt: "next_id s1 = next_id s + int (length (created_id resp))"
    by auto
  from ih(1) nxt have "assigned_ids resps2
      = map (\<lambda>i. (next_id s + int (length (created_id resp))) + int i)
          [0..<length (assigned_ids resps2)]"
    by simp
  from consecutive_append [OF one this] ih(2) nxt eq split show ?case by simp
qed

lemma keys_below_create: "keys_below s \<Longrightarrow> keys_below (snd (create_user s d now))"
  by (auto simp: keys_below_def create_user_def Let_def AList.dom_update)

lemma keys_below_update: "keys_below s \<Longrightarrow> keys_below (snd (update_user s user_id d now))"
proof -
  assume k: "keys_below s"
  show ?thesis
  proof (cases "map_of (users s) user_id")
    case None
    with k show ?thesis by (simp add: update_user_absent)
  next
    case (Some u)
    then have "user_id \<in> fst ` set (users s)"
      by (metis map_of_eq_None_iff option.distinct(1))
    with k Some show ?thesis
      by (auto simp: keys_below_def update_user_def Let_def AList.dom_update)
  qed
qed

lemma keys_below_delete: "keys_below s \<Longrightarrow> keys_below (snd (delete_user s user_id))"
  by (auto simp: keys_below_def delete_user_def AList.delete_eq split: option.splits)

subsection \<open>The invariant of the store under the handlers\<close>

lemma update_fresh: "k \<notin> fst ` set al \<Longrightarrow> AList.update k v al = al @ [(k, v)]"
  by (induction al) auto

lemma set_update_distinct:
  "distinct (map fst al) \<Longrightarrow>
   set (AList.update k v al) = insert (k, v) {p \<in> set al. fst p \<noteq> k}"
  by (induction al) (auto simp: rev_image_eqI)

lemma emails_uniqueD:
  assumes "emails_unique s" and "(i, x) \<in> set (users s)" and "(j, y) \<in> set (users s)"
    and "i \<noteq> j"
  shows "\<exists>a b. py_lower (email x) = Inr a \<and> py_lower (email y) = Inr b \<and> a \<noteq> b"
proof -
  from bspec [OF assms(1) [unfolded emails_unique_def] assms(2)]
  have "\<forall>(k', u') \<in> set (users s). i \<noteq> k' \<longrightarrow>
      (\<exists>a b. py_lower (email x) = Inr a \<and> py_lower (email u') = Inr b \<and> a \<noteq> b)"
    by simp
  from bspec [OF this assms(3)] assms(4) show ?thesis by simp
qed

lemma emails_uniqueI:
  assumes "\<And>i x j y. (i, x) \<in> set (users s) \<Longrightarrow> (j, y) \<in> set (users s) \<Longrightarrow> i \<noteq> j \<Longrightarrow>
    \<exists>a b. py_lower (email x) = Inr a \<and> py_lower (email y) = Inr b \<and> a \<noteq> b"
  shows "emails_unique s"
  unfolding emails_unique_def
proof (intro ballI, clarify)
  fix i x j y
  assume "(i, x) \<in> set (users s)" "(j, y) \<in> set (users s)" "i \<noteq> j"
  then show "\<exists>a b. py_lower (email x) = Inr a \<and> py_lower (email y) = Inr b \<and> a \<noteq> b"
    by (rule assms)
qed

lemma ids_matchD: "ids_match s \<Longrightarrow> (k, u) \<in> set (users s) \<Longrightarrow> id' u = k"
  unfolding ids_match_def by (drule (1) bspec) simp

lemma set_delete: "set (AList.delete k al) = {p \<in> set al. fst p \<noteq> k}"
  by (auto simp: AList.delete_eq)

lemma email_exists_False:
  "email_exists us d = Inr False \<Longrightarrow> u \<in> set us \<Longrightarrow>
   \<exists>a b v. d ''email'' = Some v \<and> py_lower v = Inr b \<and> py_lower (email u) = Inr a \<and> a \<noteq> b"
  by (induction us) (auto split: sum.splits option.splits if_splits)

lemma other_email_exists_False:
  "other_email_exists us user_id d = Inr False \<Longrightarrow> u \<in> set us \<Longrightarrow> id' u \<noteq> user_id \<Longrightarrow>
   \<exists>a b v. d ''email'' = Some v \<and> py_lower v = Inr b \<and> py_lower (email u) = Inr a \<and> a \<noteq> b"
  by (induction us) (auto split: sum.splits option.splits if_splits)

lemma create_json_cases:
  "snd (create_user_route s (Json d) now ts) = s
   \<or> (validate_user_data d False = Inr []
        \<and> email_exists (get_all_users s) d = Inr False
        \<and> snd (create_user_route s (Json d) now ts) = snd (create_user s d now))"
  by (auto simp: create_user_route_def create_user_try_def
      split: sum.splits bool.splits prod.splits if_splits)

lemma create_route_cases:
  "snd (create_user_route s bdy now ts) = s
   \<or> (\<exists>d. payload_of bdy = Inr d \<and> validate_user_data d False = Inr []
        \<and> email_exists (get_all_users s) d = Inr False
        \<and> snd (create_user_route s bdy now ts) = snd (create_user s d now))"
proof (cases bdy rule: body_cases)
  case (none e)
  from create_route_no_payload [OF this, of s now ts] show ?thesis by simp
next
  case (some d)
  from create_route_payload [OF some, of s now ts] create_json_cases [of s d now ts] some(1)
  show ?thesis by auto
qed

lemma update_json_cases:
  "snd (update_user_route s user_id (Json d) now ts) = s
   \<or> (\<exists>u. validate_user_data d True = Inr []
        \<and> map_of (users s) user_id = Some u
        \<and> (d ''email'' = None \<or> other_email_exists (get_all_users s) user_id d = Inr False)
        \<and> snd (update_user_route s user_id (Json d) now ts) = snd (update_user s user_id d now))"
  by (auto simp: update_user_route_def update_user_try_def get_user_by_id_def
      split: sum.splits bool.splits prod.splits if_splits option.splits)

lemma update_route_cases:
  "snd (update_user_route s user_id bdy now ts) = s
   \<or> (\<exists>d u. payload_of bdy = Inr d \<and> validate_user_data d True = Inr []
        \<and> map_of (users s) user_id = Some u
        \<and> (d ''email'' = None \<or> other_email_exists (get_all_users s) user_id d = Inr False)
        \<and> snd (update_user_route s user_id bdy now ts) = snd (update_user s user_id d now))"
proof (cases bdy rule: body_cases)
  case (none e)
  from update_route_no_payload [OF this, of s user_id now ts] show ?thesis by simp
next
  case (some d)
  from update_route_payload [OF some, of s user_id now ts] update_json_cases [of s user_id d now ts]
    some(1)
  show ?thesis by auto
qed

lemma delete_route_state:
  "snd (delete_user_route s user_id ts) = snd (delete_user s user_id)"
  by (auto simp: delete_user_route_def split: prod.splits option.splits)

lemma store_inv_create:
  assumes inv: "store_inv s" and ex: "email_exists (get_all_users s) d = Inr False"
  shows "store_inv (snd (create_user s d now))"
proof -
  let ?n = "next_id s"
  let ?new = "fst (create_user s d now)"
  let ?s' = "snd (create_user s d now)"
  from inv have dist: "distinct (map fst (users s))" and kb: "keys_below s"
    and im: "ids_match s" and eu: "emails_unique s"
    by (simp_all add: store_inv_def)
  from kb have fresh: "?n \<notin> fst ` set (users s)"
    by (auto simp: keys_below_def)
  have us: "users ?s' = users s @ [(?n, ?new)]"
    using update_fresh [OF fresh] by (simp add: create_user_def Let_def)
  have idn: "id' ?new = ?n" and em: "email ?new = dict_get d ''email''"
    by (simp_all add: create_user_def Let_def)
  have mem: "(k, u) \<in> set (users ?s') \<longleftrightarrow> (k, u) \<in> set (users s) \<or> (k = ?n \<and> u = ?new)"
    for k u
    by (auto simp: us)
  have d1: "distinct (map fst (users ?s'))"
    using dist fresh by (simp add: us)
  have d2: "keys_below ?s'"
    using kb by (rule keys_below_create)
  have d3: "ids_match ?s'"
    unfolding ids_match_def
  proof (intro ballI, clarify)
    fix k u assume "(k, u) \<in> set (users ?s')"
    with mem have "(k, u) \<in> set (users s) \<or> (k = ?n \<and> u = ?new)" by simp
    with ids_matchD [OF im] idn show "id' u = k" by blast
  qed
  have pair: "\<exists>a b. py_lower (email u) = Inr a \<and> py_lower (email ?new) = Inr b \<and> a \<noteq> b"
    if "(k, u) \<in> set (users s)" for k u
  proof -
    from that have "u \<in> set (get_all_users s)"
      by (force simp: get_all_users_def)
    from email_exists_False [OF ex this] show ?thesis
      by (auto simp: em dict_get_def)
  qed
  have d4: "emails_unique ?s'"
  proof (rule emails_uniqueI)
    fix i x j y
    assume a: "(i, x) \<in> set (users ?s')" and b: "(j, y) \<in> set (users ?s')" and ne: "i \<noteq> j"
    from a mem have a': "(i, x) \<in> set (users s) \<or> (i = ?n \<and> x = ?new)" by simp
    from b mem have b': "(j, y) \<in> set (users s) \<or> (j = ?n \<and> y = ?new)" by simp
    from a' b' show "\<exists>a b. py_lower (email x) = Inr a \<and> py_lower (email y) = Inr b \<and> a \<noteq> b"
    proof (elim disjE conjE)
      assume "(i, x) \<in> set (users s)" "(j, y) \<in> set (users s)"
      from emails_uniqueD [OF eu this ne] show ?thesis .
    next
      assume "(i, x) \<in> set (users s)" "j = ?n" "y = ?new"
      with pair [of i x] show ?thesis by simp
    next
      assume "i = ?n" "x = ?new" "(j, y) \<in> set (users s)"
      with pair [of j y] show ?thesis by auto
    next
      assume "i = ?n" "x = ?new" "j = ?n" "y = ?new"
      with ne show ?thesis by simp
    qed
  qed
  from d1 d2 d3 d4 show ?thesis by (simp add: store_inv_def)
qed

lemma update_user_present:
  assumes "map_of (users s) user_id = Some u"
  shows "\<exists>u'. update_user s user_id d now
         = (Some u', s\<lparr>users := AList.update user_id u' (users s)\<rparr>)
     \<and> id' u' = id' u
     \<and> email u' = (case d ''email'' of None \<Rightarrow> email u | Some v \<Rightarrow> v)"
  using assms by (simp add: update_user_def Let_def split: option.splits)

lemma store_inv_update:
  assumes inv: "store_inv s" and present: "map_of (users s) user_id = Some u"
    and ok: "d ''email'' = None \<or> other_email_exists (get_all_users s) user_id d = Inr False"
  shows "store_inv (snd (update_user s user_id d now))"
proof -
  let ?s' = "snd (update_user s user_id d now)"
  from update_user_present [OF present, of d now]
  obtain u' where upd: "update_user s user_id d now
        = (Some u', s\<lparr>users := AList.update user_id u' (users s)\<rparr>)"
    and idu: "id' u' = id' u"
    and em: "email u' = (case d ''email'' of None \<Rightarrow> email u | Some v \<Rightarrow> v)"
    by blast
  from upd have s': "users ?s' = AList.update user_id u' (users s)"
    by simp
  from inv have dist: "distinct (map fst (users s))" and kb: "keys_below s"
    and im: "ids_match s" and eu: "emails_unique s"
    by (simp_all add: store_inv_def)
  from present have inu: "(user_id, u) \<in> set (users s)" by (rule map_of_SomeD)
  from ids_matchD [OF im inu] have idk: "id' u = user_id" .
  have mem: "(k, w) \<in> set (users ?s') \<longleftrightarrow>
      (k = user_id \<and> w = u') \<or> ((k, w) \<in> set (users s) \<and> k \<noteq> user_id)" for k w
    by (auto simp: s' set_update_distinct [OF dist])
  have d1: "distinct (map fst (users ?s'))"
    using dist by (simp add: s' AList.distinct_update)
  have d2: "keys_below ?s'"
    using kb by (rule keys_below_update)
  have d3: "ids_match ?s'"
    unfolding ids_match_def
  proof (intro ballI, clarify)
    fix k w assume "(k, w) \<in> set (users ?s')"
    with mem have "(k = user_id \<and> w = u') \<or> ((k, w) \<in> set (users s) \<and> k \<noteq> user_id)"
      by simp
    with ids_matchD [OF im] idu idk show "id' w = k" by auto
  qed
  have pair: "\<exists>a b. py_lower (email u') = Inr a \<and> py_lower (email w) = Inr b \<and> a \<noteq> b"
    if w: "(k, w) \<in> set (users s)" and k: "k \<noteq> user_id" for k w
  proof (cases "d ''email''")
    case None
    with em have "email u' = email u" by simp
    with emails_uniqueD [OF eu inu w] k show ?thesis by auto
  next
    case (Some v)
    with ok have ex: "other_email_exists (get_all_users s) user_id d = Inr False" by simp
    from w have win: "w \<in> set (get_all_users s)" by (force simp: get_all_users_def)
    from ids_matchD [OF im w] k have "id' w \<noteq> user_id" by simp
    from other_email_exists_False [OF ex win this] Some em show ?thesis
      by auto
  qed
  have d4: "emails_unique ?s'"
  proof (rule emails_uniqueI)
    fix i x j y
    assume a: "(i, x) \<in> set (users ?s')" and b: "(j, y) \<in> set (users ?s')" and ne: "i \<noteq> j"
    from a mem have a': "(i = user_id \<and> x = u') \<or> ((i, x) \<in> set (users s) \<and> i \<noteq> user_id)"
      by simp
    from b mem have b': "(j = user_id \<and> y = u') \<or> ((j, y) \<in> set (users s) \<and> j \<noteq> user_id)"
      by simp
    from a' b' show "\<exists>a b. py_lower (email x) = Inr a \<and> py_lower (email y) = Inr b \<and> a \<noteq> b"
    proof (elim disjE conjE)
      assume "i = user_id" "x = u'" "j = user_id" "y = u'"
      with ne show ?thesis by simp
    next
      assume "i = user_id" "x = u'" "(j, y) \<in> set (users s)" "j \<noteq> user_id"
      with pair [of j y] show ?thesis by simp
    next
      assume "(i, x) \<in> set (users s)" "i \<noteq> user_id" "j = user_id" "y = u'"
      with pair [of i x] show ?thesis by auto
    next
      assume "(i, x) \<in> set (users s)" "(j, y) \<in> set (users s)"
      from emails_uniqueD [OF eu this ne] show ?thesis .
    qed
  qed
  from d1 d2 d3 d4 show ?thesis by (simp add: store_inv_def)
qed

lemma store_inv_delete:
  assumes inv: "store_inv s"
  shows "store_inv (snd (delete_user s user_id))"
proof (cases "map_of (users s) user_id")
  case None
  with inv show ?thesis by (simp add: delete_user_absent)
next
  case (Some u)
  let ?s' = "snd (delete_user s user_id)"
  from Some have s': "users ?s' = AList.delete user_id (users s)"
    by (simp add: delete_user_def)
  from inv have dist: "distinct (map fst (users s))" and kb: "keys_below s"
    and im: "ids_match s" and eu: "emails_unique s"
    by (simp_all add: store_inv_def)
  have sub: "(k, w) \<in> set (users ?s') \<Longrightarrow> (k, w) \<in> set (users s)" for k w
    by (simp add: s' set_delete)
  from dist have d1: "distinct (map fst (users ?s'))"
    by (simp add: s' AList.distinct_delete)
  from kb have d2: "keys_below ?s'" by (rule keys_below_delete)
  have d3: "ids_match ?s'"
    unfolding ids_match_def
  proof (intro ballI, clarify)
    fix k w assume "(k, w) \<in> set (users ?s')"
    from ids_matchD [OF im sub [OF this]] show "id' w = k" .
  qed
  have d4: "emails_unique ?s'"
  proof (rule emails_uniqueI)
    fix i x j y
    assume "(i, x) \<in> set (users ?s')" "(j, y) \<in> set (users ?s')" "i \<noteq> j"
    from emails_uniqueD [OF eu sub [OF this(1)] sub [OF this(2)] this(3)]
    show "\<exists>a b. py_lower (email x) = Inr a \<and> py_lower (email y) = Inr b \<and> a \<noteq> b" .
  qed
  from d1 d2 d3 d4 show ?thesis by (simp add: store_inv_def)
qed

lemma store_inv_handle:
  assumes inv: "store_inv s"
  shows "store_inv (snd (handle s r))"
proof (cases r)
  case (Post bdy now ts)
  from create_route_cases [of s bdy now ts] inv store_inv_create [OF inv]
  show ?thesis using Post by auto
next
  case (Put user_id bdy now ts)
  from update_route_cases [of s user_id bdy now ts] inv store_inv_update [OF inv]
  show ?thesis using Put by auto
next
  case (Delete user_id ts)
  from store_inv_delete [OF inv] show ?thesis using Delete
    by (simp add: delete_route_state)
qed

lemma store_inv_run: "store_inv s \<Longrightarrow> store_inv (snd (run s reqs))"
proof (induction reqs arbitrary: s)
  case Nil
  then show ?case by simp
next
  case (Cons r reqs)
  from store_inv_handle [OF Cons.prems, of r] have "store_inv (snd (handle s r))" .
  from Cons.IH [OF this] show ?case
    by (auto split: prod.splits)
qed

lemma lower_seed:
  "lower ''john.doe@example.com'' = ''john.doe@example.com''"
  "lower ''jane.smith@example.com'' = ''jane.smith@example.com''"
  "lower ''mike.johnson@example.com'' = ''mike.johnson@example.com''"
  by code_simp+

lemma store_inv_init: "store_inv UserManager_init"
  by (simp add: store_inv_def keys_below_def ids_match_def emails_unique_def UserManager_init_def
      lower_seed)

subsection \<open>Creation assigns a fresh identifier\<close>

lemma run_keys_below: "run UserManager_init reqs = (resps, s) \<Longrightarrow> keys_below s"
  using store_inv_run [OF store_inv_init, of reqs] by (simp add: store_inv_def)

text \<open>
  Claim C1. Let the store be the one reached from the seeded state by any sequence of
  POST, PUT and DELETE requests. If POST answers 201, the record \<open>u\<close> it returns has the
  identifier 4 plus the number of records created before; this is greater than 1, 2, 3,
  than every identifier assigned before and than every key of the store. Looking the
  identifier up in the new store returns \<open>u\<close> itself, and the GET handler returns it
  with status 200.
\<close>

theorem created_id_fresh_and_gettable:
  assumes "run UserManager_init reqs = (resps, self)"
    and "status_code (fst (create_user_route self bdy now ts)) = 201"
  shows "\<exists>u. data (fst (create_user_route self bdy now ts)) = Some (DUser (Some u))
     \<and> id' u = 4 + int (length (assigned_ids resps))
     \<and> (\<forall>i \<in> {1, 2, 3} \<union> set (assigned_ids resps). i < id' u)
     \<and> (\<forall>k \<in> fst ` set (users self). k < id' u)
     \<and> get_user_by_id (snd (create_user_route self bdy now ts)) (id' u) = Some u
     \<and> get_user_route (snd (create_user_route self bdy now ts)) (id' u) ts'
         = create_response ts' (Some (DUser (Some u))) (Some ''User retrieved successfully'')
             200 None"
proof -
  from create_route_201 [OF assms(2)] obtain d where
    r: "create_user_route self bdy now ts
         = (create_response ts (Some (DUser (Some (fst (create_user self d now)))))
              (Some ''User created successfully'') 201 None,
            snd (create_user self d now))"
    by blast
  let ?u = "fst (create_user self d now)"
  have idu: "id' ?u = next_id self"
    by (simp add: create_user_def Let_def)
  from run_consecutive [OF assms(1)]
  have c: "assigned_ids resps = map (\<lambda>i. 4 + int i) [0..<length (assigned_ids resps)]"
    and n: "next_id self = 4 + int (length (assigned_ids resps))"
    by (simp_all add: UserManager_init_def)
  from consecutive_props(3) [OF c] n idu
  have earlier: "\<forall>i \<in> set (assigned_ids resps). i < id' ?u" by simp
  from n idu have seeded: "\<forall>i \<in> {1, 2, 3}. i < id' ?u" by simp
  from run_keys_below [OF assms(1)] idu
  have keys: "\<forall>k \<in> fst ` set (users self). k < id' ?u"
    by (simp add: keys_below_def)
  have got: "get_user_by_id (snd (create_user self d now)) (id' ?u) = Some ?u"
    by (simp add: get_user_by_id_def create_user_def Let_def AList.update_conv')
  then have route: "get_user_route (snd (create_user self d now)) (id' ?u) ts'
         = create_response ts' (Some (DUser (Some ?u))) (Some ''User retrieved successfully'')
             200 None"
    by (simp add: get_user_route_def)
  from r idu n earlier seeded keys got route show ?thesis
    by (intro exI [of _ ?u]) (simp add: create_response_def ball_Un)
qed

theorem created_id_fresh_and_gettable_witness:
  "assigned_ids (fst (run UserManager_init [Post (Json new_user) t1 t2, Delete 4 t2])) = [4]
   \<and> status_code (fst (create_user_route
         (snd (run UserManager_init [Post (Json new_user) t1 t2, Delete 4 t2]))
         (Json new_user) t1 t2)) = 201
   \<and> (\<exists>u. data (fst (create_user_route
                (snd (run UserManager_init [Post (Json new_user) t1 t2, Delete 4 t2]))
                (Json new_user) t1 t2)) = Some (DUser (Some u))
        \<and> id' u = 5
        \<and> get_user_by_id (snd (create_user_route
                (snd (run UserManager_init [Post (Json new_user) t1 t2, Delete 4 t2]))
                (Json new_user) t1 t2)) 5 = Some u)"
proof -
  define reqs where "reqs = [Post (Json new_user) t1 t2, Delete 4 t2]"
  have r: "run UserManager_init reqs = (fst (run UserManager_init reqs), snd (run UserManager_init reqs))"
    by simp
  have ids: "assigned_ids (fst (run UserManager_init reqs)) = [4]"
    unfolding reqs_def by code_simp
  have s: "status_code (fst (create_user_route (snd (run UserManager_init reqs))
        (Json new_user) t1 t2)) = 201"
    unfolding reqs_def by code_simp
  from created_id_fresh_and_gettable [OF r s, of t2] ids
  have "\<exists>u. data (fst (create_user_route (snd (run UserManager_init reqs))
                (Json new_user) t1 t2)) = Some (DUser (Some u))
        \<and> id' u = 5
        \<and> get_user_by_id (snd (create_user_route (snd (run UserManager_init reqs))
                (Json new_user) t1 t2)) 5 = Some u"
    by auto
  with ids s show ?thesis
    unfolding reqs_def by blast
qed

subsection \<open>Email uniqueness in the handlers\<close>

lemma py_lower_Inr: "py_lower v = Inr a \<longleftrightarrow> (\<exists>s. v = JStr s \<and> a = lower s)"
  by (cases v) auto

lemma email_exists_str:
  assumes "d ''email'' = Some (JStr e)" and "\<forall>u \<in> set us. \<exists>s. email u = JStr s"
  shows "email_exists us d = Inr (\<exists>u \<in> set us. \<exists>e'. email u = JStr e' \<and> lower e' = lower e)"
  using assms by (induction us) auto

lemma other_email_exists_str:
  assumes "d ''email'' = Some (JStr e)"
    and "\<forall>u \<in> set us. id' u \<noteq> user_id \<longrightarrow> (\<exists>s. email u = JStr s)"
  shows "other_email_exists us user_id d
    = Inr (\<exists>u \<in> set us. id' u \<noteq> user_id \<and> (\<exists>e'. email u = JStr e' \<and> lower e' = lower e))"
  using assms by (induction us) auto

lemma other_email_exists_TrueD:
  "other_email_exists us user_id d = Inr True \<Longrightarrow>
   \<exists>w \<in> set us. id' w \<noteq> user_id
     \<and> (\<exists>a v. d ''email'' = Some v \<and> py_lower v = Inr a \<and> py_lower (email w) = Inr a)"
  by (induction us) (auto split: sum.splits option.splits if_splits)

text \<open>One record with a string as email makes every record hold one.\<close>

lemma store_inv_all_str:
  assumes inv: "store_inv s" and m: "(k, u) \<in> set (users s)" and str: "email u = JStr e"
    and w: "(j, w) \<in> set (users s)"
  shows "\<exists>s'. email w = JStr s'"
proof (cases "j = k")
  case True
  from inv have "distinct (map fst (users s))" by (simp add: store_inv_def)
  from this m w True have "w = u" by (metis eq_key_imp_eq_value)
  with str show ?thesis by simp
next
  case False
  from inv have "emails_unique s" by (simp add: store_inv_def)
  from emails_uniqueD [OF this w m False] show ?thesis
    by (auto simp: py_lower_Inr)
qed

lemma in_get_all_users: "w \<in> set (get_all_users s) \<longleftrightarrow> (\<exists>j. (j, w) \<in> set (users s))"
  by (force simp: get_all_users_def)

lemma update_route_409:
  "status_code (fst (update_user_route s user_id (Json d) now ts)) = 409 \<Longrightarrow>
   other_email_exists (get_all_users s) user_id d = Inr True"
  by (auto simp: update_user_route_def update_user_try_def create_response_def
      split: sum.splits bool.splits prod.splits if_splits option.splits)

lemma store_inv_reached: "run UserManager_init reqs = (resps, s) \<Longrightarrow> store_inv s"
  using store_inv_run [OF store_inv_init, of reqs] by simp

lemma create_route_conflict:
  "validate_user_data d False = Inr [] \<Longrightarrow> email_exists (get_all_users s) d = Inr True \<Longrightarrow>
   create_user_route s (Json d) now ts
     = (create_response ts None (Some ''User with this email already exists'') 409 None, s)"
  by (simp add: create_user_route_def create_user_try_def)

lemma update_route_conflict:
  "get_user_by_id s user_id \<noteq> None \<Longrightarrow> validate_user_data d True = Inr [] \<Longrightarrow>
   d ''email'' \<noteq> None \<Longrightarrow> other_email_exists (get_all_users s) user_id d = Inr True \<Longrightarrow>
   update_user_route s user_id (Json d) now ts
     = (create_response ts None (Some ''Another user with this email already exists'') 409 None, s)"
  by (auto simp: update_user_route_def update_user_try_def)

text \<open>
  Claim C3, as amended. Let the store be the one reached from the seeded state by any
  sequence of POST, PUT and DELETE requests. A creation payload that passes validation
  and whose email equals, after \<open>lower\<close>, the email of a stored record makes POST answer
  409 and return the store unchanged, whatever the letter case of the two emails. PUT on
  a stored identifier, with a payload that passes validation and whose email equals,
  after \<open>lower\<close>, the email of a record with another identifier, answers 409 and returns
  the store unchanged. PUT with the record's own email, in any letter case, never
  answers 409.
\<close>

theorem duplicate_email_conflict:
  assumes "run UserManager_init reqs = (resps, self)"
  shows "(validate_user_data d False = Inr [] \<and> d ''email'' = Some (JStr e)
          \<and> (\<exists>u \<in> set (get_all_users self). \<exists>e'. email u = JStr e' \<and> lower e' = lower e)
        \<longrightarrow> create_user_route self (Json d) now ts
             = (create_response ts None (Some ''User with this email already exists'') 409 None,
                self))
    \<and> (get_user_by_id self user_id \<noteq> None \<and> validate_user_data d True = Inr []
          \<and> d ''email'' = Some (JStr e)
          \<and> (\<exists>u \<in> set (get_all_users self).
                id' u \<noteq> user_id \<and> (\<exists>e'. email u = JStr e' \<and> lower e' = lower e))
        \<longrightarrow> update_user_route self user_id (Json d) now ts
             = (create_response ts None (Some ''Another user with this email already exists'')
                  409 None, self))
    \<and> (\<forall>u v. get_user_by_id self user_id = Some u \<and> d ''email'' = Some v
               \<and> py_lower v = py_lower (email u)
        \<longrightarrow> status_code (fst (update_user_route self user_id (Json d) now ts)) \<noteq> 409)"
proof (intro conjI impI allI)
  from assms have inv: "store_inv self" by (rule store_inv_reached)
  {
    assume h: "validate_user_data d False = Inr [] \<and> d ''email'' = Some (JStr e)
          \<and> (\<exists>u \<in> set (get_all_users self). \<exists>e'. email u = JStr e' \<and> lower e' = lower e)"
    then obtain u0 e0 where u0: "u0 \<in> set (get_all_users self)" "email u0 = JStr e0"
      "lower e0 = lower e" by blast
    from u0(1) obtain k where k: "(k, u0) \<in> set (users self)"
      by (auto simp: in_get_all_users)
    have "\<forall>w \<in> set (get_all_users self). \<exists>s. email w = JStr s"
      using store_inv_all_str [OF inv k u0(2)] by (auto simp: in_get_all_users)
    from email_exists_str [OF _ this, of d e] h u0
    have "email_exists (get_all_users self) d = Inr True" by auto
    with h show "create_user_route self (Json d) now ts
             = (create_response ts None (Some ''User with this email already exists'') 409 None,
                self)"
      by (simp add: create_route_conflict)
  }
  {
    assume h: "get_user_by_id self user_id \<noteq> None \<and> validate_user_data d True = Inr []
          \<and> d ''email'' = Some (JStr e)
          \<and> (\<exists>u \<in> set (get_all_users self).
                id' u \<noteq> user_id \<and> (\<exists>e'. email u = JStr e' \<and> lower e' = lower e))"
    then obtain u0 e0 where u0: "u0 \<in> set (get_all_users self)" "id' u0 \<noteq> user_id"
      "email u0 = JStr e0" "lower e0 = lower e" by blast
    from u0(1) obtain k where k: "(k, u0) \<in> set (users self)"
      by (auto simp: in_get_all_users)
    have "\<forall>w \<in> set (get_all_users self). id' w \<noteq> user_id \<longrightarrow> (\<exists>s. email w = JStr s)"
      using store_inv_all_str [OF inv k u0(3)] by (auto simp: in_get_all_users)
    from other_email_exists_str [OF _ this, of d e] h u0
    have "other_email_exists (get_all_users self) user_id d = Inr True" by auto
    with h show "update_user_route self user_id (Json d) now ts
             = (create_response ts None (Some ''Another user with this email already exists'')
                  409 None, self)"
      by (simp add: update_route_conflict)
  }
  {
    fix u v
    assume h: "get_user_by_id self user_id = Some u \<and> d ''email'' = Some v
               \<and> py_lower v = py_lower (email u)"
    show "status_code (fst (update_user_route self user_id (Json d) now ts)) \<noteq> 409"
    proof
      assume "status_code (fst (update_user_route self user_id (Json d) now ts)) = 409"
      from other_email_exists_TrueD [OF update_route_409 [OF this]] h
      obtain w a where w: "w \<in> set (get_all_users self)" "id' w \<noteq> user_id"
        "py_lower v = Inr a" "py_lower (email w) = Inr a" by auto
      from w(1) obtain j where j: "(j, w) \<in> set (users self)"
        by (auto simp: in_get_all_users)
      from inv have im: "ids_match self" and eu: "emails_unique self"
        by (simp_all add: store_inv_def)
      from ids_matchD [OF im j] w(2) have ne: "j \<noteq> user_id" by simp
      from h have "(user_id, u) \<in> set (users self)"
        by (auto simp: get_user_by_id_def dest: map_of_SomeD)
      from emails_uniqueD [OF eu j this ne] w(3,4) h show False by auto
    qed
  }
qed

theorem duplicate_email_conflict_witness:
  "validate_user_data duplicate_user False = Inr []
   \<and> validate_user_data own_email True = Inr []
   \<and> create_user_route (snd (run UserManager_init [Delete 3 t2])) (Json duplicate_user) t1 t2
       = (create_response t2 None (Some ''User with this email already exists'') 409 None,
          snd (run UserManager_init [Delete 3 t2]))
   \<and> update_user_route (snd (run UserManager_init [Delete 3 t2])) 2 (Json own_email) t1 t2
       = (create_response t2 None (Some ''Another user with this email already exists'') 409 None,
          snd (run UserManager_init [Delete 3 t2]))
   \<and> status_code (fst (update_user_route (snd (run UserManager_init [Delete 3 t2])) 1
         (Json own_email) t1 t2)) \<noteq> 409"
proof -
  define s where "s = snd (run UserManager_init [Delete 3 t2])"
  define john where "john = snd (hd (users UserManager_init))"
  have r: "run UserManager_init [Delete 3 t2] = (fst (run UserManager_init [Delete 3 t2]), s)"
    by (simp add: s_def)
  have us: "get_all_users s = take 2 (get_all_users UserManager_init)"
    and g1: "get_user_by_id s 1 = Some john" and g2: "get_user_by_id s 2 \<noteq> None"
    by (simp_all add: s_def john_def delete_user_route_def delete_user_def UserManager_init_def
        get_all_users_def get_user_by_id_def)
  have "john \<in> set (take 2 (get_all_users UserManager_init))"
    by (simp add: john_def UserManager_init_def get_all_users_def)
  with us have john1: "john \<in> set (get_all_users s)" by simp
  have john2: "email john = JStr ''john.doe@example.com''" "id' john \<noteq> 2"
    by (simp_all add: john_def UserManager_init_def)
  note john = john1 john2
  have low: "lower ''john.doe@example.com'' = lower ''John.Doe@Example.COM''"
    by code_simp
  have v1: "validate_user_data duplicate_user False = Inr []"
    by code_simp
  have v2: "validate_user_data own_email True = Inr []"
    by code_simp
  have e1: "duplicate_user ''email'' = Some (JStr ''John.Doe@Example.COM'')"
    by (simp add: duplicate_user_def)
  have e2: "own_email ''email'' = Some (JStr ''john.doe@example.com'')"
    by (simp add: own_email_def)
  from john low have m1: "\<exists>u \<in> set (get_all_users s).
      \<exists>e'. email u = JStr e' \<and> lower e' = lower ''John.Doe@Example.COM''"
    by blast
  from john have m2: "\<exists>u \<in> set (get_all_users s).
      id' u \<noteq> 2 \<and> (\<exists>e'. email u = JStr e' \<and> lower e' = lower ''john.doe@example.com'')"
    by blast
  from duplicate_email_conflict [OF r, of duplicate_user "''John.Doe@Example.COM''" t1 t2 2]
    v1 e1 m1
  have c1: "create_user_route s (Json duplicate_user) t1 t2
       = (create_response t2 None (Some ''User with this email already exists'') 409 None, s)"
    by blast
  from duplicate_email_conflict [OF r, of own_email "''john.doe@example.com''" t1 t2 2]
    v2 e2 m2 g2
  have c2: "update_user_route s 2 (Json own_email) t1 t2
       = (create_response t2 None (Some ''Another user with this email already exists'') 409 None,
          s)"
    by blast
  from e2 john(2) have "own_email ''email'' = Some (JStr ''john.doe@example.com'')
      \<and> py_lower (JStr ''john.doe@example.com'') = py_lower (email john)"
    by simp
  with duplicate_email_conflict [OF r, of own_email "''john.doe@example.com''" t1 t2 1] g1
  have c3: "status_code (fst (update_user_route s 1 (Json own_email) t1 t2)) \<noteq> 409"
    by blast
  from v1 v2 c1 c2 c3 show ?thesis
    unfolding s_def by blast
qed

text \<open>
  The claim as stated fails for a payload that does not pass validation: the payload
  holding only John Doe's email in another letter case is answered with 400, since
  validation comes before the email check.
\<close>

theorem duplicate_email_invalid_payload_counterexample:
  "email_only ''email'' = Some (JStr ''John.Doe@Example.COM'')
   \<and> get_user_by_id UserManager_init 1 \<noteq> None
   \<and> email (the (get_user_by_id UserManager_init 1)) = JStr ''john.doe@example.com''
   \<and> lower ''John.Doe@Example.COM'' = lower ''john.doe@example.com''
   \<and> status_code (fst (create_user_route UserManager_init (Json email_only) t1 t2)) = 400
   \<and> status_code (fst (create_user_route UserManager_init (Json email_only) t1 t2)) \<noteq> 409"
  by code_simp

subsection \<open>Search\<close>

lemma is_str_JStr: "is_str v \<Longrightarrow> v = JStr (str_of v)"
  by (cases v) (simp_all add: is_str_def str_of_def)

lemma user_matches_str:
  assumes "str_fields u"
  shows "user_matches query u = Inr (contains_ci query u)"
proof -
  from assms have n: "name u = JStr (str_of (name u))" and e: "email u = JStr (str_of (email u))"
    and p: "position u = JStr (str_of (position u))"
    by (simp_all add: str_fields_def is_str_JStr)
  have "py_lower (name u) = Inr (lower (str_of (name u)))"
    "py_lower (email u) = Inr (lower (str_of (email u)))"
    "py_lower (position u) = Inr (lower (str_of (position u)))"
    by (subst n, simp) (subst e, simp, subst p, simp)
  then show ?thesis
    by (simp add: user_matches_def contains_ci_def)
qed

lemma search_loop_str:
  "\<forall>u \<in> set us. str_fields u \<Longrightarrow>
   search_loop us query acc = Inr (acc @ filter (contains_ci query) us)"
  by (induction us arbitrary: acc) (simp_all add: user_matches_str)

lemma strip_empty: "strip s = [] \<longleftrightarrow> (\<forall>c \<in> set s. is_space c)"
proof
  assume "strip s = []"
  then have "dropWhile is_space (rev (dropWhile is_space s)) = []"
    by (simp add: strip_def)
  then have "\<forall>c \<in> set (rev (dropWhile is_space s)). is_space c"
    by (simp only: dropWhile_eq_Nil_conv)
  then have all: "\<forall>c \<in> set (dropWhile is_space s). is_space c"
    by (simp only: set_rev)
  have "dropWhile is_space s = []"
  proof (rule ccontr)
    assume ne: "dropWhile is_space s \<noteq> []"
    then have "\<not> is_space (hd (dropWhile is_space s))" by (rule hd_dropWhile)
    with all ne show False by simp
  qed
  then show "\<forall>c \<in> set s. is_space c" by (simp add: dropWhile_eq_Nil_conv)
next
  assume "\<forall>c \<in> set s. is_space c"
  then have d: "dropWhile is_space s = []" by (simp add: dropWhile_eq_Nil_conv)
  show "strip s = []" unfolding strip_def d by simp
qed

lemma query_of_empty:
  "query_of q = [] \<longleftrightarrow> (case q of None \<Rightarrow> True | Some s \<Rightarrow> \<forall>c \<in> set s. is_space c)"
proof (cases q)
  case None
  then show ?thesis by (simp add: query_of_def strip_def)
next
  case (Some s)
  then show ?thesis by (simp add: query_of_def strip_empty)
qed

text \<open>
  Claim C9, as amended. Let every stored record hold strings as name, email and
  position, and let the query be \<open>q\<close> without its surrounding whitespace. If the query
  is not empty, the handler answers 200 with exactly the records, in the order of the
  store, whose name, email or position contains the query after \<open>lower\<close> on both sides,
  with their number and the query. The query is empty exactly when \<open>q\<close> is missing,
  empty or made of whitespace only; the handler then answers 400 without data.
\<close>

theorem search_returns_matching_records:
  assumes "\<forall>u \<in> set (get_all_users self). str_fields u"
  shows "(query_of q = [] \<longleftrightarrow> (case q of None \<Rightarrow> True | Some s \<Rightarrow> \<forall>c \<in> set s. is_space c))
    \<and> (query_of q = [] \<longrightarrow>
          search_users self q ts
            = Inr (create_response ts None
                     (Some (''Search query parameter '' @ [CHR 0x27] @ ''q'' @ [CHR 0x27]
                            @ '' is required'')) 400 None))
    \<and> (query_of q \<noteq> [] \<longrightarrow>
          search_users self q ts
            = Inr (create_response ts
                     (Some (DSearch (filter (contains_ci (query_of q)) (get_all_users self))
                              (length (filter (contains_ci (query_of q)) (get_all_users self)))
                              (query_of q)))
                     (Some (''Found ''
                            @ str_int (int (length (filter (contains_ci (query_of q))
                                                      (get_all_users self))))
                            @ '' users matching '' @ [CHR 0x27] @ query_of q @ [CHR 0x27]))
                     200 None))"
proof (intro conjI impI)
  show "query_of q = [] \<longleftrightarrow> (case q of None \<Rightarrow> True | Some s \<Rightarrow> \<forall>c \<in> set s. is_space c)"
    by (rule query_of_empty)
next
  assume "query_of q = []"
  then show "search_users self q ts
            = Inr (create_response ts None
                     (Some (''Search query parameter '' @ [CHR 0x27] @ ''q'' @ [CHR 0x27]
                            @ '' is required'')) 400 None)"
    by (simp add: search_users_def query_of_def)
next
  assume ne: "query_of q \<noteq> []"
  from search_loop_str [OF assms, of "query_of q" "[]"]
  have "search_loop (get_all_users self) (query_of q) []
      = Inr (filter (contains_ci (query_of q)) (get_all_users self))"
    by simp
  with ne show "search_users self q ts
            = Inr (create_response ts
                     (Some (DSearch (filter (contains_ci (query_of q)) (get_all_users self))
                              (length (filter (contains_ci (query_of q)) (get_all_users self)))
                              (query_of q)))
                     (Some (''Found ''
                            @ str_int (int (length (filter (contains_ci (query_of q))
                                                      (get_all_users self))))
                            @ '' users matching '' @ [CHR 0x27] @ query_of q @ [CHR 0x27]))
                     200 None)"
    by (simp add: search_users_def query_of_def Let_def)
qed

theorem search_returns_matching_records_witness:
  "list_all str_fields (get_all_users UserManager_init)
   \<and> query_of (Some ''John'') = ''John''
   \<and> search_users UserManager_init (Some ''John'') t1
       = Inr (create_response t1
                (Some (DSearch [the (get_user_by_id UserManager_init 1),
                                the (get_user_by_id UserManager_init 3)] 2 ''John''))
                (Some (''Found 2 users matching '' @ [CHR 0x27] @ ''John'' @ [CHR 0x27]))
                200 None)
   \<and> name (the (get_user_by_id UserManager_init 1)) = JStr ''John Doe''
   \<and> search_users UserManager_init None t1
       = Inr (create_response t1 None
                (Some (''Search query parameter '' @ [CHR 0x27] @ ''q'' @ [CHR 0x27]
                       @ '' is required'')) 400 None)"
proof -
  have typed: "\<forall>u \<in> set (get_all_users UserManager_init). str_fields u"
    by (simp add: get_all_users_def UserManager_init_def str_fields_def is_str_def)
  have q1: "query_of (Some ''John'') = ''John''"
    by code_simp
  have q2: "query_of None = []"
    by code_simp
  have f: "filter (contains_ci ''John'') (get_all_users UserManager_init)
      = [the (get_user_by_id UserManager_init 1), the (get_user_by_id UserManager_init 3)]"
    by code_simp
  have n: "str_int 2 = ''2''"
    by code_simp
  have j: "name (the (get_user_by_id UserManager_init 1)) = JStr ''John Doe''"
    by (simp add: get_user_by_id_def UserManager_init_def)
  note th1 = search_returns_matching_records [OF typed, of "Some ''John''" t1]
  note th2 = search_returns_matching_records [OF typed, of None t1]
  from th1 q1 have "search_users UserManager_init (Some ''John'') t1
      = Inr (create_response t1
               (Some (DSearch (filter (contains_ci ''John'') (get_all_users UserManager_init))
                        (length (filter (contains_ci ''John'') (get_all_users UserManager_init)))
                        ''John''))
               (Some (''Found ''
                      @ str_int (int (length (filter (contains_ci ''John'')
                                                (get_all_users UserManager_init))))
                      @ '' users matching '' @ [CHR 0x27] @ ''John'' @ [CHR 0x27]))
               200 None)"
    by simp
  then have s1: "search_users UserManager_init (Some ''John'') t1
       = Inr (create_response t1
                (Some (DSearch [the (get_user_by_id UserManager_init 1),
                                the (get_user_by_id UserManager_init 3)] 2 ''John''))
                (Some (''Found 2 users matching '' @ [CHR 0x27] @ ''John'' @ [CHR 0x27]))
                200 None)"
    by (simp add: f n eval_nat_numeral)
  from th2 q2 have s2: "search_users UserManager_init None t1
       = Inr (create_response t1 None
                (Some (''Search query parameter '' @ [CHR 0x27] @ ''q'' @ [CHR 0x27]
                       @ '' is required'')) 400 None)"
    by blast
  from typed have "list_all str_fields (get_all_users UserManager_init)"
    by (simp add: list_all_iff)
  with q1 s1 j s2 show ?thesis by blast
qed

text \<open>
  The claim as stated fails in two ways. For \<open>q = " John "\<close> no seeded record contains
  \<open>q\<close>, yet the handler returns the two records that contain \<open>John\<close>, and reports the
  query \<open>John\<close>. And after \<open>PUT /users/1\<close> with \<open>{"name": null}\<close>, which the handler
  accepts, a search raises when it calls \<open>lower\<close> on that name.
\<close>

theorem search_padded_query_counterexample:
  "search_users UserManager_init (Some '' John '') t1
     = Inr (create_response t1
              (Some (DSearch [the (get_user_by_id UserManager_init 1),
                              the (get_user_by_id UserManager_init 3)] 2 ''John''))
              (Some (''Found 2 users matching '' @ [CHR 0x27] @ ''John'' @ [CHR 0x27]))
              200 None)
   \<and> filter (contains_ci '' John '') (get_all_users UserManager_init) = []
   \<and> status_code (fst (update_user_route UserManager_init 1 (Json null_name) t1 t2)) = 200
   \<and> search_users (snd (update_user_route UserManager_init 1 (Json null_name) t1 t2))
        (Some ''Jane'') t2 = Inl AttributeError"
  by code_simp

subsection \<open>Records with empty fields\<close>

text \<open>
  Claim C4 at the request \<open>PUT /users/1\<close> with body \<open>{"name": ""}\<close> on the seeded
  store. In update mode the name block is skipped for a falsy value and nothing else
  looks at it, so validation returns no error, the handler answers 200 and the stored
  record has the empty string as name; with \<open>{"name": null}\<close> it has \<open>null\<close>. The POST
  handler rejects the same empty name with 400.
\<close>

theorem update_persists_empty_name:
  "validate_user_data empty_name True = Inr []
   \<and> status_code (fst (update_user_route UserManager_init 1 (Json empty_name) t1 t2)) = 200
   \<and> map_option name
        (get_user_by_id (snd (update_user_route UserManager_init 1 (Json empty_name) t1 t2)) 1)
       = Some (JStr [])
   \<and> status_code (fst (update_user_route UserManager_init 1 (Json null_name) t1 t2)) = 200
   \<and> map_option name
        (get_user_by_id (snd (update_user_route UserManager_init 1 (Json null_name) t1 t2)) 1)
       = Some JNull
   \<and> validate_user_data (new_user(''name'' \<mapsto> JStr [])) False = Inr [required_msg ''name'']
   \<and> status_code (fst (create_user_route UserManager_init
                          (Json (new_user(''name'' \<mapsto> JStr []))) t1 t2)) = 400"
  by code_simp

end
